theory Spec2Isabelle
  imports Main
begin

section \<open>Values of the declarative documents\<close>

text \<open>
  The documents that flask-swagger handles are the Python values that the YAML loader
  and the JSON loader return: \<open>None\<close>, booleans, integers, text, lists and dictionaries.
  A dictionary keeps its insertion order, so it is an association list; its keys are text
  or integers (\<open>200:\<close> in a \<open>responses\<close> block is an integer key).

  Two limits of the model are fixed here once. Values are trees: two places of a document
  never share one Python object (a YAML alias would make them share). Characters are the
  8-bit characters of HOL.
\<close>

datatype key = KStr string | KInt int

datatype json =
    JNull
  | JBool bool
  | JInt int
  | JStr string
  | JList "json list"
  | JObj "(key \<times> json) list"

datatype error =
    AttributeError
  | TypeError
  | IndexError
  | LookupError
  | ParseError
  | FileError

text \<open>
  The collaborators that the source reaches through imports and the file system:
  the dynamic lookup of \<open>_definition_from_jsonschema\<close> (\<open>__import__\<close> and \<open>getattr\<close>),
  \<open>yaml.load\<close>, \<open>open(path).read()\<close>, and Python's \<open>repr\<close> of a list or a
  dictionary (used only when such a value is formatted into a reference).
\<close>

record env =
  registry :: "string \<Rightarrow> string \<Rightarrow> error + json"
  yaml_load :: "string \<Rightarrow> error + json"
  read_file :: "string \<Rightarrow> error + string"
  py_repr :: "json \<Rightarrow> string"

section \<open>Dictionary operations\<close>

text \<open>\<open>d.get(k)\<close>: the value, or \<open>None\<close> when the key is missing.\<close>

definition dict_get :: "(key \<times> json) list \<Rightarrow> key \<Rightarrow> json" where
  "dict_get kvs k = (case map_of kvs k of None \<Rightarrow> JNull | Some v \<Rightarrow> v)"

text \<open>\<open>d[k] = v\<close>: an existing key keeps its place, a new key goes to the end.\<close>

fun dict_set :: "(key \<times> json) list \<Rightarrow> key \<Rightarrow> json \<Rightarrow> (key \<times> json) list" where
  "dict_set [] k v = [(k, v)]"
| "dict_set ((k', v') # kvs) k v =
     (if k' = k then (k, v) # kvs else (k', v') # dict_set kvs k v)"

text \<open>\<open>del d[k]\<close>, used by the source only where the key is present.\<close>

definition dict_del :: "(key \<times> json) list \<Rightarrow> key \<Rightarrow> (key \<times> json) list" where
  "dict_del kvs k = filter (\<lambda>kv. fst kv \<noteq> k) kvs"

text \<open>\<open>d.update(e)\<close>: every pair of \<open>e\<close>, in order, is stored into \<open>d\<close>.\<close>

fun dict_update :: "(key \<times> json) list \<Rightarrow> (key \<times> json) list \<Rightarrow> (key \<times> json) list" where
  "dict_update d [] = d"
| "dict_update d ((k, v) # e) = dict_update (dict_set d k v) e"

text \<open>
  \<open>x.get(k)\<close> on any value: only a dictionary has the method, everything else
  (also \<open>None\<close>) raises \<open>AttributeError\<close>.
\<close>

fun py_get :: "json \<Rightarrow> string \<Rightarrow> error + json" where
  "py_get (JObj kvs) k = Inr (dict_get kvs (KStr k))"
| "py_get _ k = Inl AttributeError"

text \<open>
  \<open>x[k] = v\<close> and \<open>del x[k]\<close> on a value on which \<open>.get\<close> has already succeeded,
  so that it is a dictionary; other values are left alone.
\<close>

fun obj_set :: "json \<Rightarrow> string \<Rightarrow> json \<Rightarrow> json" where
  "obj_set (JObj kvs) k v = JObj (dict_set kvs (KStr k) v)"
| "obj_set j k v = j"

fun obj_del :: "json \<Rightarrow> string \<Rightarrow> json" where
  "obj_del (JObj kvs) k = JObj (dict_del kvs (KStr k))"
| "obj_del j k = j"

text \<open>\<open>x[k] = v\<close> with a text key on an arbitrary value.\<close>

fun py_setitem :: "json \<Rightarrow> string \<Rightarrow> json \<Rightarrow> error + json" where
  "py_setitem (JObj kvs) k v = Inr (JObj (dict_set kvs (KStr k) v))"
| "py_setitem _ k v = Inl TypeError"

text \<open>\<open>x.values()\<close>.\<close>

fun py_values :: "json \<Rightarrow> error + json list" where
  "py_values (JObj kvs) = Inr (map snd kvs)"
| "py_values _ = Inl AttributeError"

section \<open>Text operations\<close>

text \<open>\<open>s.find(pat)\<close>: the index of the first occurrence, \<open>None\<close> for Python's \<open>-1\<close>.\<close>

fun str_find :: "string \<Rightarrow> string \<Rightarrow> nat option" where
  "str_find pat [] = (if pat = [] then Some 0 else None)"
| "str_find pat (c # cs) =
     (if take (length pat) (c # cs) = pat then Some 0
      else map_option Suc (str_find pat cs))"

text \<open>
  \<open>s.split(sep)\<close> for a non-empty separator: \<open>cur\<close> is the piece being read.
  The source calls it with the literals \<open>import/\<close>, \<open>.\<close> and \<open>:\<close> only.
\<close>

function split_from :: "string \<Rightarrow> string \<Rightarrow> string \<Rightarrow> string list" where
  "split_from sep cur s =
     (if s = [] then [cur]
      else if sep \<noteq> [] \<and> take (length sep) s = sep
        then cur # split_from sep [] (drop (length sep) s)
      else split_from sep (cur @ [hd s]) (tl s))"
  by pat_completeness auto
termination
  by (relation "measure (\<lambda>(sep, cur, s). length s)") auto

definition py_split :: "string \<Rightarrow> string \<Rightarrow> string list" where
  "py_split s sep = split_from sep [] s"

text \<open>\<open>sep.join(parts)\<close>.\<close>

fun py_join :: "string \<Rightarrow> string list \<Rightarrow> string" where
  "py_join sep [] = []"
| "py_join sep [p] = p"
| "py_join sep (p # q # ps) = p @ sep @ py_join sep (q # ps)"

text \<open>\<open>str(n)\<close> of an integer.\<close>

fun show_nat :: "nat \<Rightarrow> string" where
  "show_nat n =
     (if n < 10 then [''0123456789'' ! n]
      else show_nat (n div 10) @ [''0123456789'' ! (n mod 10)])"

definition show_int :: "int \<Rightarrow> string" where
  "show_int i = (if i < 0 then CHR ''-'' # show_nat (nat (- i)) else show_nat (nat i))"

text \<open>
  \<open>"{}".format(x)\<close>, that is \<open>str(x)\<close>: text as it is, an integer in decimal, the
  names of the constants, and \<open>repr\<close> for a list or a dictionary.
\<close>

fun py_str :: "env \<Rightarrow> json \<Rightarrow> string" where
  "py_str env (JStr s) = s"
| "py_str env (JInt i) = show_int i"
| "py_str env (JBool b) = (if b then ''True'' else ''False'')"
| "py_str env JNull = ''None''"
| "py_str env j = py_repr env j"

text \<open>
  \<open>s in x\<close> for a text \<open>s\<close>: a substring of a text, an element of a list, a key of
  a dictionary; a number, a boolean or \<open>None\<close> is not iterable.
\<close>

fun py_in :: "string \<Rightarrow> json \<Rightarrow> error + bool" where
  "py_in s (JStr t) = Inr (str_find s t \<noteq> None)"
| "py_in s (JList xs) = Inr (JStr s \<in> set xs)"
| "py_in s (JObj kvs) = Inr (KStr s \<in> set (map fst kvs))"
| "py_in s _ = Inl TypeError"

declare split_from.simps [simp del]
declare show_nat.simps [simp del]

section \<open>The schema definition extractor\<close>

text \<open>
  \<open>_extract_definitions(alist, level)\<close> walks a list of entries, collects the schema
  objects that carry an \<open>id\<close> in \<open>defs\<close> and rewrites the entries in place. The model
  returns the entries as they are after the call, next to the list the call returns.

  One pass of the loop body ends in one of two ways: the loop goes on (\<open>Next\<close>, with the
  entry as mutated and the objects to add to \<open>defs\<close>), or the function returns at once
  (\<open>Return\<close>, the \<open>return [definition]\<close> of the import case, with the entry as mutated
  and the returned list).
\<close>

datatype step = Next json "json list" | Return json "json list"

text \<open>
  \<open>for item in alist\<close>, with the variable \<open>defs\<close> as accumulator. A \<open>Return\<close> leaves
  the loop with its own list, whatever \<open>defs\<close> holds, and the entries behind it are not
  visited.
\<close>

fun for_items ::
  "(json \<Rightarrow> error + step) \<Rightarrow> json list \<Rightarrow> json list \<Rightarrow> error + (json list \<times> json list)" where
  "for_items body [] defs = Inr ([], defs)"
| "for_items body (item # rest) defs =
     (case body item of
        Inl e \<Rightarrow> Inl e
      | Inr (Return item' ds) \<Rightarrow> Inr (item' # rest, ds)
      | Inr (Next item' ds) \<Rightarrow>
          (case for_items body rest (defs @ ds) of
             Inl e \<Rightarrow> Inl e
           | Inr (rest', defs') \<Rightarrow> Inr (item' # rest', defs')))"

lemma for_items_cong [fundef_cong]:
  "xs = ys \<Longrightarrow> d = d' \<Longrightarrow> (\<And>x. x \<in> set ys \<Longrightarrow> f x = g x)
   \<Longrightarrow> for_items f xs d = for_items g ys d'"
proof (induction ys arbitrary: xs d d')
  case Nil
  then show ?case by simp
next
  case (Cons y ys)
  have hd_eq: "f y = g y" using Cons.prems(3) by simp
  have tl_eq: "\<And>a. for_items f ys a = for_items g ys a"
    using Cons.IH Cons.prems(3) by simp
  show ?case
    using Cons.prems(1,2) hd_eq tl_eq by (simp split: sum.split step.split)
qed

text \<open>
  The nested helper \<open>_extract_array_defs(source)\<close>; \<open>body\<close> is the loop body at
  \<open>level + 1\<close>. The call mutates the object under \<open>items\<close> in place: the result is
  that object as mutated (\<open>None\<close> when the helper did not recurse) and the list \<open>ret\<close>.
\<close>

definition extract_array_defs ::
  "(json \<Rightarrow> error + step) \<Rightarrow> json \<Rightarrow> error + (json option \<times> json list)" where
  "extract_array_defs body source =
     (case py_get source ''items'' of
        Inl e \<Rightarrow> Inl e
      | Inr items \<Rightarrow>
          if items = JNull then Inr (None, [])
          else (case py_in ''schema'' items of
                  Inl e \<Rightarrow> Inl e
                | Inr False \<Rightarrow> Inr (None, [])
                | Inr True \<Rightarrow>
                    (case for_items body [items] [] of
                       Inl e \<Rightarrow> Inl e
                     | Inr (its, ds) \<Rightarrow>
                         Inr (case its of [] \<Rightarrow> None | i # _ \<Rightarrow> Some i, ds))))"

lemma extract_array_defs_cong [fundef_cong]:
  "source = source' \<Longrightarrow> (\<And>x. py_get source' ''items'' = Inr x \<Longrightarrow> f x = g x)
   \<Longrightarrow> extract_array_defs f source = extract_array_defs g source'"
proof -
  assume src: "source = source'" and fg: "\<And>x. py_get source' ''items'' = Inr x \<Longrightarrow> f x = g x"
  show ?thesis
  proof (cases "py_get source' ''items''")
    case (Inl e)
    then show ?thesis using src by (simp add: extract_array_defs_def)
  next
    case (Inr items)
    then have "f items = g items" using fg by simp
    then have loop_eq: "for_items f [items] [] = for_items g [items] []"
      by (intro for_items_cong) simp_all
    show ?thesis
      unfolding extract_array_defs_def src Inr by (simp only: sum.case loop_eq)
  qed
qed

text \<open>Writing a mutated child back into its parent, under the key it was read from.\<close>

definition put_items :: "json option \<Rightarrow> json \<Rightarrow> json" where
  "put_items r source = (case r of None \<Rightarrow> source | Some i \<Rightarrow> obj_set source ''items'' i)"

definition put_values :: "json list option \<Rightarrow> json \<Rightarrow> json \<Rightarrow> json" where
  "put_values r properties schema =
     (case r of
        None \<Rightarrow> schema
      | Some vs \<Rightarrow>
          (case properties of
             JObj kvs \<Rightarrow> obj_set schema ''properties'' (JObj (zip (map fst kvs) vs))
           | _ \<Rightarrow> schema))"

text \<open>
  The test of the first \<open>if\<close> of the loop body:
  \<open>schema is not None and schema.get("$ref") is not None and "import/" in schema.get("$ref")\<close>.
\<close>

definition is_import_ref :: "json \<Rightarrow> error + bool" where
  "is_import_ref schema =
     (if schema = JNull then Inr False
      else (case py_get schema ''$ref'' of
              Inl e \<Rightarrow> Inl e
            | Inr ref \<Rightarrow> if ref = JNull then Inr False else py_in ''import/'' ref))"

text \<open>
  The import case, lines 114 to 131: the reference is split at the marker, the piece after
  the first marker is the dotted path, the \<open>$ref\<close> of the schema is rewritten, the object
  is looked up and its \<open>id\<close> is set to the dotted path.
\<close>

definition import_definition :: "env \<Rightarrow> json \<Rightarrow> json \<Rightarrow> error + step" where
  "import_definition env item schema =
     (case py_get schema ''$ref'' of
        Inl e \<Rightarrow> Inl e
      | Inr (JStr ref) \<Rightarrow>
          (case py_split ref ''import/'' of
             _ # module_path # _ \<Rightarrow>
               (let parts = py_split module_path ''.'';
                    module = py_join ''.'' (butlast parts);
                    name = last parts;
                    schema' = obj_set schema ''$ref'' (JStr (''#/definitions/'' @ module_path));
                    item' = obj_set item ''schema'' schema'
                in (case registry env module name of
                      Inl e \<Rightarrow> Inl e
                    | Inr definition \<Rightarrow>
                        (case py_setitem definition ''id'' (JStr module_path) of
                           Inl e \<Rightarrow> Inl e
                         | Inr definition' \<Rightarrow> Inr (Return item' [definition']))))
           | _ \<Rightarrow> Inl IndexError)
      | Inr _ \<Rightarrow> Inl AttributeError)"

text \<open>
  The replacement of an identified schema, lines 136 to 146: at level 0 the entry's
  \<open>schema\<close> becomes the reference object, deeper the reference is merged into the entry
  and the \<open>schema\<close> key is deleted.
\<close>

definition ref_string :: "env \<Rightarrow> json \<Rightarrow> string" where
  "ref_string env schema_id = ''#/definitions/'' @ py_str env schema_id"

definition replace_schema :: "env \<Rightarrow> nat \<Rightarrow> json \<Rightarrow> json \<Rightarrow> json" where
  "replace_schema env level item schema_id =
     (if level = 0
      then obj_set item ''schema'' (JObj [(KStr ''$ref'', JStr (ref_string env schema_id))])
      else obj_del (obj_set item ''$ref'' (JStr (ref_string env schema_id))) ''schema'')"

text \<open>
  The loop body. The schema object that \<open>defs.append(schema)\<close> stores is the object that
  the later lines mutate, so the list holds it as it is at the end of the pass
  (\<open>schema'\<close>). An entry whose schema has no \<open>id\<close> keeps the mutated schema under its
  \<open>schema\<close> key. The last line reads \<open>items\<close> from the entry; the rewriting above it
  touches only the keys \<open>schema\<close> and \<open>$ref\<close>, so the value is the one the entry
  came with.
\<close>

function extract_item :: "env \<Rightarrow> nat \<Rightarrow> json \<Rightarrow> error + step" where
  "extract_item env level item =
     (case py_get item ''schema'' of
        Inl e \<Rightarrow> Inl e
      | Inr schema \<Rightarrow>
     (case is_import_ref schema of
        Inl e \<Rightarrow> Inl e
      | Inr True \<Rightarrow> import_definition env item schema
      | Inr False \<Rightarrow>
     (case (if schema = JNull then Inr (item, [])
            else
             (case py_get schema ''id'' of
                Inl e \<Rightarrow> Inl e
              | Inr schema_id \<Rightarrow>
             (case py_get schema ''properties'' of
                Inl e \<Rightarrow> Inl e
              | Inr properties \<Rightarrow>
             (case (if properties = JNull then Inr (None, [])
                    else (case py_values properties of
                            Inl e \<Rightarrow> Inl e
                          | Inr vals \<Rightarrow>
                              (case for_items (extract_item env (Suc level)) vals [] of
                                 Inl e \<Rightarrow> Inl e
                               | Inr (vals', ds) \<Rightarrow> Inr (Some vals', ds)))) of
                Inl e \<Rightarrow> Inl e
              | Inr (props', pdefs) \<Rightarrow>
             (case extract_array_defs (extract_item env (Suc level)) schema of
                Inl e \<Rightarrow> Inl e
              | Inr (sitems', adefs) \<Rightarrow>
                  (let schema' = put_items sitems' (put_values props' properties schema)
                   in if schema_id \<noteq> JNull
                      then Inr (replace_schema env level item schema_id,
                                [schema'] @ pdefs @ adefs)
                      else Inr (obj_set item ''schema'' schema', pdefs @ adefs)))))))
      of
        Inl e \<Rightarrow> Inl e
      | Inr (item', sdefs) \<Rightarrow>
     (case extract_array_defs (extract_item env (Suc level)) item of
        Inl e \<Rightarrow> Inl e
      | Inr (iitems', idefs) \<Rightarrow> Inr (Next (put_items iitems' item') (sdefs @ idefs))))))"
  by pat_completeness auto

lemma size_dict_get: "size (dict_get kvs k) < Suc (size_list (size_prod (\<lambda>_. 0) size) kvs)"
proof (induction kvs)
  case Nil
  then show ?case by (simp add: dict_get_def)
next
  case (Cons kv kvs)
  then show ?case by (cases kv) (auto simp: dict_get_def split: option.splits)
qed

lemma size_py_get: "py_get j k = Inr v \<Longrightarrow> size v < size j"
  using size_dict_get by (cases j) auto

lemma size_py_values: "py_values j = Inr vs \<Longrightarrow> x \<in> set vs \<Longrightarrow> size x < size j"
proof (cases j)
  case (JObj kvs)
  assume "py_values j = Inr vs" and "x \<in> set vs"
  then obtain k where "(k, x) \<in> set kvs" using JObj by auto
  then have "size x < Suc (size_list (size_prod (\<lambda>_. 0) size) kvs)"
    by (induction kvs) auto
  then show ?thesis using JObj by simp
qed auto

termination extract_item
proof (relation "measure (\<lambda>(env, level, item). size item)")
  show "wf (measure (\<lambda>(env, level, item). size item))" by simp
next
  fix env :: env and level item x2 x2a x2b vals x
  assume "py_get item ''schema'' = Inr x2" "py_get x2 ''properties'' = Inr x2b"
    "py_values x2b = Inr vals" "x \<in> set vals"
  then have "size x < size item"
    using size_py_get size_py_values by (meson less_trans)
  then show "((env, Suc level, x), env, level, item)
       \<in> measure (\<lambda>(env, level, item). size item)" by simp
next
  fix env :: env and level item x2 x
  assume "py_get item ''schema'' = Inr x2" "py_get x2 ''items'' = Inr x"
  then have "size x < size item"
    using size_py_get by (meson less_trans)
  then show "((env, Suc level, x), env, level, item)
       \<in> measure (\<lambda>(env, level, item). size item)" by simp
next
  fix env :: env and level item x
  assume "py_get item ''items'' = Inr x"
  then show "((env, Suc level, x), env, level, item)
       \<in> measure (\<lambda>(env, level, item). size item)"
    using size_py_get by simp
qed

declare extract_item.simps [simp del]

text \<open>
  The function itself, on a list of entries. (\<open>level=None\<close> stands for level 0; the
  callers that pass other iterables are in the assembler below.)
\<close>

definition extract_definitions :: "env \<Rightarrow> json list \<Rightarrow> nat \<Rightarrow> error + (json list \<times> json list)" where
  "extract_definitions env alist level = for_items (extract_item env level) alist []"

section \<open>The documentation block parser\<close>

text \<open>\<open>_sanitize\<close>: every line feed becomes \<open><br/>\<close>; the empty text stays as it is.\<close>

definition sanitize :: "string \<Rightarrow> string" where
  "sanitize comment = concat (map (\<lambda>c. if c = CHR 0x0A then ''<br/>'' else [c]) comment)"

text \<open>
  \<open>str.splitlines()\<close> on 8-bit characters: a line ends at a line feed, a carriage
  return (with the line feed that follows it), a vertical tab, a form feed, one of the
  separators \<open>0x1C\<close> to \<open>0x1E\<close>, or \<open>0x85\<close>; there is no empty last line.
\<close>

definition is_linebreak :: "char \<Rightarrow> bool" where
  "is_linebreak c = (c \<in> set [CHR 0x0A, CHR 0x0B, CHR 0x0C, CHR 0x0D, CHR 0x1C, CHR 0x1D,
                                CHR 0x1E, CHR 0x85])"

fun splitlines_from :: "string \<Rightarrow> string \<Rightarrow> string list" where
  "splitlines_from cur [] = (if cur = [] then [] else [cur])"
| "splitlines_from cur [c] = (if is_linebreak c then [cur] else [cur @ [c]])"
| "splitlines_from cur (c # d # cs) =
     (if c = CHR 0x0D \<and> d = CHR 0x0A then cur # splitlines_from [] cs
      else if is_linebreak c then cur # splitlines_from [] (d # cs)
      else splitlines_from (cur @ [c]) (d # cs))"

definition py_splitlines :: "string \<Rightarrow> string list" where
  "py_splitlines s = splitlines_from [] s"

text \<open>\<open>str.strip()\<close>: the characters below 256 for which \<open>isspace\<close> holds.\<close>

definition is_space :: "char \<Rightarrow> bool" where
  "is_space c = (c \<in> set [CHR 0x09, CHR 0x0A, CHR 0x0B, CHR 0x0C, CHR 0x0D, CHR 0x1C,
                           CHR 0x1D, CHR 0x1E, CHR 0x1F, CHR 0x20, CHR 0x85, CHR 0xA0])"

definition py_strip :: "string \<Rightarrow> string" where
  "py_strip s = rev (dropWhile is_space (rev (dropWhile is_space s)))"

text \<open>
  \<open>_find_from_file\<close>: the path of the first line \<open><keyword> : <path></keyword>\<close>, if any.
\<close>

fun find_in_lines :: "string list \<Rightarrow> string \<Rightarrow> string option" where
  "find_in_lines [] from_file_keyword = None"
| "find_in_lines (line # lines) from_file_keyword =
     (if str_find from_file_keyword line \<noteq> None
      then (case py_split (py_strip line) '':'' of
              [p0, p1] \<Rightarrow>
                if py_strip p0 = from_file_keyword then Some (py_strip p1)
                else find_in_lines lines from_file_keyword
            | _ \<Rightarrow> find_in_lines lines from_file_keyword)
      else find_in_lines lines from_file_keyword)"

definition find_from_file :: "string \<Rightarrow> string \<Rightarrow> string option" where
  "find_from_file full_doc from_file_keyword =
     find_in_lines (py_splitlines full_doc) from_file_keyword"

text \<open>
  Lines 64 to 69 of \<open>_parse_docstring\<close>: the text that is parsed, after the optional
  redirection to a file. A path that is empty and a file that is empty leave the
  documentation as it is; a file that cannot be read raises.
\<close>

definition resolve_doc :: "env \<Rightarrow> string \<Rightarrow> string option \<Rightarrow> error + string" where
  "resolve_doc env full_doc from_file_keyword =
     (case from_file_keyword of
        None \<Rightarrow> Inr full_doc
      | Some kw \<Rightarrow>
          (case find_from_file full_doc kw of
             None \<Rightarrow> Inr full_doc
           | Some from_file \<Rightarrow>
               if from_file = [] then Inr full_doc
               else (case read_file env from_file of
                       Inl e \<Rightarrow> Inl e
                     | Inr full_doc_from_file \<Rightarrow>
                         if full_doc_from_file \<noteq> [] then Inr full_doc_from_file
                         else Inr full_doc)))"

text \<open>
  Lines 70 to 83: the split of the text. \<open>s[a:b]\<close> is \<open>take (b - a) (drop a s)\<close>,
  empty when \<open>b \<le> a\<close>. The third component is the loaded fragment, \<open>JNull\<close> for
  Python's \<open>None\<close>.
\<close>

definition split_doc ::
  "env \<Rightarrow> (string \<Rightarrow> string) \<Rightarrow> string \<Rightarrow> error + (string option \<times> string option \<times> json)" where
  "split_doc env process_doc full_doc =
     (case str_find [CHR 0x0A] full_doc of
        Some line_feed \<Rightarrow>
          (let first_line = process_doc (take line_feed full_doc)
           in (case str_find ''---'' (drop (line_feed + 1) full_doc) of
                 Some yaml_sep \<Rightarrow>
                   (let other_lines =
                          process_doc (take ((line_feed + yaml_sep) - (line_feed + 1))
                                         (drop (line_feed + 1) full_doc))
                    in (case yaml_load env (drop (line_feed + yaml_sep) full_doc) of
                          Inl e \<Rightarrow> Inl e
                        | Inr swag \<Rightarrow> Inr (Some first_line, Some other_lines, swag)))
               | None \<Rightarrow>
                   Inr (Some first_line,
                        Some (process_doc (drop (line_feed + 1) full_doc)), JNull)))
      | None \<Rightarrow> Inr (Some full_doc, None, JNull))"

text \<open>
  \<open>_parse_docstring(obj, process_doc, from_file_keyword)\<close>. The handler \<open>obj\<close> is
  given by what \<open>inspect.getdoc(obj)\<close> returns for it: \<open>None\<close> or its documentation.
\<close>

definition parse_docstring ::
  "env \<Rightarrow> string option \<Rightarrow> (string \<Rightarrow> string) \<Rightarrow> string option
   \<Rightarrow> error + (string option \<times> string option \<times> json)" where
  "parse_docstring env obj process_doc from_file_keyword =
     (case obj of
        None \<Rightarrow> Inr (None, None, JNull)
      | Some full_doc \<Rightarrow>
          if full_doc = [] then Inr (None, None, JNull)
          else (case resolve_doc env full_doc from_file_keyword of
                  Inl e \<Rightarrow> Inl e
                | Inr doc \<Rightarrow> split_doc env process_doc doc))"

section \<open>The assembler\<close>

text \<open>
  \<open>_extract_definitions\<close> as \<open>swagger\<close> calls it, at level 0 on whatever the
  fragment holds: \<open>None\<close> gives the empty list; a list is walked and mutated; a
  dictionary and a text are iterated too (over the keys, over the characters, none of
  which has a \<open>get\<close> method); anything else is not iterable.
\<close>

fun key_json :: "key \<Rightarrow> json" where
  "key_json (KStr s) = JStr s"
| "key_json (KInt i) = JInt i"

fun extract_definitions_of :: "env \<Rightarrow> json \<Rightarrow> error + (json \<times> json list)" where
  "extract_definitions_of env JNull = Inr (JNull, [])"
| "extract_definitions_of env (JList xs) =
     (case extract_definitions env xs 0 of
        Inl e \<Rightarrow> Inl e
      | Inr (xs', ds) \<Rightarrow> Inr (JList xs', ds))"
| "extract_definitions_of env (JObj kvs) =
     (case extract_definitions env (map (key_json \<circ> fst) kvs) 0 of
        Inl e \<Rightarrow> Inl e
      | Inr (_, ds) \<Rightarrow> Inr (JObj kvs, ds))"
| "extract_definitions_of env (JStr s) =
     (case extract_definitions env (map (\<lambda>c. JStr [c]) s) 0 of
        Inl e \<Rightarrow> Inl e
      | Inr (_, ds) \<Rightarrow> Inr (JStr s, ds))"
| "extract_definitions_of env _ = Inl TypeError"

text \<open>\<open>d.get(k, default)\<close>: the default only when the key is missing.\<close>

definition dict_get_default :: "(key \<times> json) list \<Rightarrow> key \<Rightarrow> json \<Rightarrow> json" where
  "dict_get_default kvs k dflt = (case map_of kvs k of None \<Rightarrow> dflt | Some v \<Rightarrow> v)"

text \<open>\<open>str(key)\<close> of a dictionary key.\<close>

fun key_str :: "key \<Rightarrow> string" where
  "key_str (KStr s) = s"
| "key_str (KInt i) = show_int i"

text \<open>
  The key under which an \<open>id\<close> is stored in \<open>definitions\<close>. A list or a dictionary
  is not hashable; \<open>True\<close> and \<open>False\<close> hash and compare as 1 and 0.
\<close>

fun hash_key :: "json \<Rightarrow> error + key" where
  "hash_key (JStr s) = Inr (KStr s)"
| "hash_key (JInt i) = Inr (KInt i)"
| "hash_key (JBool b) = Inr (KInt (if b then 1 else 0))"
| "hash_key _ = Inl TypeError"

text \<open>
  Lines 264 to 266, one pass of \<open>for definition in defs\<close>: the \<open>id\<close> is popped, and
  when it is not \<open>None\<close> the rest of the object is merged, key by key, into the table's
  entry for it (a \<open>defaultdict(dict)\<close>: a missing entry starts empty).
\<close>

definition merge_definition :: "(key \<times> json) list \<Rightarrow> json \<Rightarrow> error + (key \<times> json) list" where
  "merge_definition definitions definition =
     (case definition of
        JObj d \<Rightarrow>
          (let def_id = dict_get d (KStr ''id'');
               d' = dict_del d (KStr ''id'')
           in if def_id = JNull then Inr definitions
              else (case hash_key def_id of
                      Inl e \<Rightarrow> Inl e
                    | Inr k \<Rightarrow>
                        (case map_of definitions k of
                           None \<Rightarrow> Inr (dict_set definitions k (JObj (dict_update [] d')))
                         | Some (JObj cur) \<Rightarrow>
                             Inr (dict_set definitions k (JObj (dict_update cur d')))
                         | Some _ \<Rightarrow> Inl AttributeError)))
      | _ \<Rightarrow> Inl AttributeError)"

fun merge_definitions :: "(key \<times> json) list \<Rightarrow> json list \<Rightarrow> error + (key \<times> json) list" where
  "merge_definitions definitions [] = Inr definitions"
| "merge_definitions definitions (definition # defs) =
     (case merge_definition definitions definition of
        Inl e \<Rightarrow> Inl e
      | Inr definitions' \<Rightarrow> merge_definitions definitions' defs)"

text \<open>
  Lines 252 to 262: the three extractions on a fragment, in the order \<open>definitions\<close>,
  \<open>parameters\<close>, \<open>responses\<close>. The result is the list \<open>defs\<close>, \<open>params\<close> as
  mutated and the re-keyed \<open>responses\<close> with its values as mutated.
\<close>

definition collect_definitions ::
  "env \<Rightarrow> json \<Rightarrow> error + (json list \<times> json \<times> (key \<times> json) list)" where
  "collect_definitions env swag =
     (case swag of
        JObj kvs \<Rightarrow>
          (case extract_definitions_of env (dict_get_default kvs (KStr ''definitions'') (JList [])) of
             Inl e \<Rightarrow> Inl e
           | Inr (_, defs0) \<Rightarrow>
          (case extract_definitions_of env (dict_get_default kvs (KStr ''parameters'') (JList [])) of
             Inl e \<Rightarrow> Inl e
           | Inr (params, defs1) \<Rightarrow>
          (case dict_get_default kvs (KStr ''responses'') (JObj []) of
             JObj rs \<Rightarrow>
               (let responses = dict_update [] (map (\<lambda>(k, v). (KStr (key_str k), v)) rs)
                in (case extract_definitions env (map snd responses) 0 of
                      Inl e \<Rightarrow> Inl e
                    | Inr (vals', defs2) \<Rightarrow>
                        Inr (defs0 @ defs1 @ defs2, params, zip (map fst responses) vals')))
           | _ \<Rightarrow> Inl AttributeError)))
      | _ \<Rightarrow> Inl AttributeError)"

text \<open>\<open>len(x)\<close>.\<close>

fun py_len :: "json \<Rightarrow> error + nat" where
  "py_len (JList xs) = Inr (length xs)"
| "py_len (JObj kvs) = Inr (length kvs)"
| "py_len (JStr s) = Inr (length s)"
| "py_len _ = Inl TypeError"

definition OPTIONAL_FIELDS :: "string list" where
  "OPTIONAL_FIELDS = [''tags'', ''consumes'', ''produces'', ''schemes'', ''security'',
                      ''deprecated'', ''operationId'', ''externalDocs'']"

definition opt_text :: "string option \<Rightarrow> json" where
  "opt_text t = (case t of None \<Rightarrow> JNull | Some s \<Rightarrow> JStr s)"

fun copy_optional :: "(key \<times> json) list \<Rightarrow> string list \<Rightarrow> (key \<times> json) list \<Rightarrow> (key \<times> json) list" where
  "copy_optional swag [] operation = operation"
| "copy_optional swag (k # ks) operation =
     copy_optional swag ks
       (if KStr k \<in> set (map fst swag) then dict_set operation (KStr k) (dict_get swag (KStr k))
        else operation)"

text \<open>Lines 267 to 278: the operation of one verb.\<close>

definition build_operation ::
  "string option \<Rightarrow> string option \<Rightarrow> (key \<times> json) list \<Rightarrow> json \<Rightarrow> (key \<times> json) list
   \<Rightarrow> error + json" where
  "build_operation summary description swag params responses =
     (let operation = [(KStr ''summary'', opt_text summary),
                       (KStr ''description'', opt_text description),
                       (KStr ''responses'', JObj responses)]
      in (case py_len params of
            Inl e \<Rightarrow> Inl e
          | Inr n \<Rightarrow>
              Inr (JObj (copy_optional swag OPTIONAL_FIELDS
                           (if n > 0 then dict_set operation (KStr ''parameters'') params
                            else operation)))))"

text \<open>
  What one handler contributes, apart from the state it is merged into: nothing when its
  documentation has no fragment, else the hoisted objects and the data of the operation.
\<close>

definition method_fragment ::
  "env \<Rightarrow> (string \<Rightarrow> string) \<Rightarrow> string option \<Rightarrow> string option
   \<Rightarrow> error + (string option \<times> string option \<times> (key \<times> json) list
                 \<times> json list \<times> json \<times> (key \<times> json) list) option" where
  "method_fragment env process_doc from_file_keyword method =
     (case parse_docstring env method process_doc from_file_keyword of
        Inl e \<Rightarrow> Inl e
      | Inr (summary, description, swag) \<Rightarrow>
          if swag = JNull then Inr None
          else (case collect_definitions env swag of
                  Inl e \<Rightarrow> Inl e
                | Inr (defs, params, responses) \<Rightarrow>
                    (case swag of
                       JObj kvs \<Rightarrow> Inr (Some (summary, description, kvs, defs, params, responses))
                     | _ \<Rightarrow> Inl AttributeError)))"

text \<open>
  \<open>for verb, method in methods\<close>, lines 246 to 279, with the dictionary \<open>operations\<close>
  and the table \<open>definitions\<close> as state.
\<close>

fun for_methods ::
  "env \<Rightarrow> (string \<Rightarrow> string) \<Rightarrow> string option \<Rightarrow> (string \<times> string option) list
   \<Rightarrow> (key \<times> json) list \<Rightarrow> (key \<times> json) list
   \<Rightarrow> error + ((key \<times> json) list \<times> (key \<times> json) list)" where
  "for_methods env process_doc kw [] operations definitions = Inr (operations, definitions)"
| "for_methods env process_doc kw ((verb, method) # methods) operations definitions =
     (case method_fragment env process_doc kw method of
        Inl e \<Rightarrow> Inl e
      | Inr None \<Rightarrow> for_methods env process_doc kw methods operations definitions
      | Inr (Some (summary, description, swag, defs, params, responses)) \<Rightarrow>
          (case merge_definitions definitions defs of
             Inl e \<Rightarrow> Inl e
           | Inr definitions' \<Rightarrow>
               (case build_operation summary description swag params responses of
                  Inl e \<Rightarrow> Inl e
                | Inr operation \<Rightarrow>
                    for_methods env process_doc kw methods
                      (dict_set operations (KStr verb) operation) definitions')))"

text \<open>
  Lines 281 and 282: \<open>paths[rule].update(operations)\<close> when \<open>operations\<close> is not
  empty; \<open>paths\<close> is a \<open>defaultdict(dict)\<close>, and an entry that a template supplied
  must be a dictionary to have \<open>update\<close>.
\<close>

definition update_path ::
  "(key \<times> json) list \<Rightarrow> string \<Rightarrow> (key \<times> json) list \<Rightarrow> error + (key \<times> json) list" where
  "update_path paths rule operations =
     (if operations = [] then Inr paths
      else (case map_of paths (KStr rule) of
              None \<Rightarrow> Inr (dict_set paths (KStr rule) (JObj (dict_update [] operations)))
            | Some (JObj cur) \<Rightarrow>
                Inr (dict_set paths (KStr rule) (JObj (dict_update cur operations)))
            | Some _ \<Rightarrow> Inl AttributeError))"

text \<open>
  \<open>for rule, methods in swagger_endpoints.items()\<close>, lines 242 to 282. The routes are
  what \<open>url_parser(app, prefix)\<close> returned: the rules in order, each with its pairs of a
  verb and a handler, a handler being given by its documentation.
\<close>

fun for_rules ::
  "env \<Rightarrow> (string \<Rightarrow> string) \<Rightarrow> (string \<Rightarrow> string) \<Rightarrow> string option
   \<Rightarrow> (string \<times> (string \<times> string option) list) list
   \<Rightarrow> (key \<times> json) list \<Rightarrow> (key \<times> json) list
   \<Rightarrow> error + ((key \<times> json) list \<times> (key \<times> json) list)" where
  "for_rules env rule_parser process_doc kw [] paths definitions = Inr (paths, definitions)"
| "for_rules env rule_parser process_doc kw ((rule, methods) # rest) paths definitions =
     (case for_methods env process_doc kw methods [] definitions of
        Inl e \<Rightarrow> Inl e
      | Inr (operations, definitions') \<Rightarrow>
          (case update_path paths (rule_parser rule) operations of
             Inl e \<Rightarrow> Inl e
           | Inr paths' \<Rightarrow> for_rules env rule_parser process_doc kw rest paths' definitions'))"

text \<open>
  Lines 231 to 237: the sections \<open>paths\<close> and \<open>definitions\<close> that a template seeds.
  A key that is missing gives the empty dictionary; a value that is not a dictionary has
  no \<open>items\<close> method.
\<close>

definition seed_section :: "(key \<times> json) list \<Rightarrow> string \<Rightarrow> error + (key \<times> json) list" where
  "seed_section output name =
     (case dict_get_default output (KStr name) (JObj []) of
        JObj kvs \<Rightarrow> Inr (dict_update [] kvs)
      | _ \<Rightarrow> Inl AttributeError)"

text \<open>
  \<open>swagger(app, url_parser, rule_parser, process_doc, prefix, from_file_keyword,
  template)\<close>. The application, the URL parser and the prefix enter through
  \<open>swagger_endpoints\<close>, the value of \<open>url_parser(app, prefix)\<close>; the template is a
  dictionary or \<open>None\<close>. The result is \<open>output\<close>, whose \<open>paths\<close> and
  \<open>definitions\<close> are the two tables as the loop leaves them.
\<close>

definition swagger ::
  "env \<Rightarrow> (string \<times> (string \<times> string option) list) list \<Rightarrow> (string \<Rightarrow> string)
   \<Rightarrow> (string \<Rightarrow> string) \<Rightarrow> string option \<Rightarrow> (key \<times> json) list option
   \<Rightarrow> error + (key \<times> json) list" where
  "swagger env swagger_endpoints rule_parser process_doc from_file_keyword template =
     (let output0 = [(KStr ''swagger'', JStr ''2.0''),
                     (KStr ''info'', JObj [(KStr ''version'', JStr ''0.0.0''),
                                           (KStr ''title'', JStr ''Cool product name'')])]
      in (case (case template of
                  None \<Rightarrow> Inr (output0, [], [])
                | Some t \<Rightarrow>
                    (let output = dict_update output0 t
                     in (case seed_section output ''paths'' of
                           Inl e \<Rightarrow> Inl e
                         | Inr paths \<Rightarrow>
                             (case seed_section output ''definitions'' of
                                Inl e \<Rightarrow> Inl e
                              | Inr definitions \<Rightarrow> Inr (output, paths, definitions))))) of
            Inl e \<Rightarrow> Inl e
          | Inr (output, paths, definitions) \<Rightarrow>
              (case for_rules env rule_parser process_doc from_file_keyword swagger_endpoints
                      paths definitions of
                 Inl e \<Rightarrow> Inl e
               | Inr (paths', definitions') \<Rightarrow>
                   Inr (dict_set (dict_set output (KStr ''paths'') (JObj paths'))
                          (KStr ''definitions'') (JObj definitions')))))"

section \<open>Notions used to state the properties\<close>

text \<open>
  An entry on which the first \<open>if\<close> of the loop body succeeds: it has a schema whose
  \<open>$ref\<close> holds the marker \<open>import/\<close>.
\<close>

definition import_entry :: "json \<Rightarrow> bool" where
  "import_entry item =
     (case py_get item ''schema'' of
        Inl e \<Rightarrow> False
      | Inr schema \<Rightarrow> is_import_ref schema = Inr True)"

text \<open>Concrete collaborators and entries, for the instances below.\<close>

definition example_env :: env where
  "example_env =
     \<lparr> registry = (\<lambda>module name.
          if module = ''pkg.models'' \<and> name = ''User''
          then Inr (JObj [(KStr ''type'', JStr ''object'')]) else Inl LookupError),
       yaml_load = (\<lambda>text. Inr (JStr text)),
       read_file = (\<lambda>path. Inl FileError),
       py_repr = (\<lambda>j. ''{}'') \<rparr>"

definition item_entry :: json where
  "item_entry =
     JObj [(KStr ''in'', JStr ''body''),
           (KStr ''schema'',
            JObj [(KStr ''id'', JStr ''Item''),
                  (KStr ''properties'',
                   JObj [(KStr ''name'', JObj [(KStr ''type'', JStr ''string'')])])])]"

definition item_entry_done :: json where
  "item_entry_done =
     JObj [(KStr ''in'', JStr ''body''),
           (KStr ''schema'', JObj [(KStr ''$ref'', JStr ''#/definitions/Item'')])]"

definition item_schema :: "(key \<times> json) list" where
  "item_schema =
     [(KStr ''id'', JStr ''Item''),
      (KStr ''properties'', JObj [(KStr ''name'', JObj [(KStr ''type'', JStr ''string'')])])]"

definition user_entry :: json where
  "user_entry = JObj [(KStr ''schema'', JObj [(KStr ''$ref'', JStr ''#/import/pkg.models.User'')])]"

definition user_entry_done :: json where
  "user_entry_done =
     JObj [(KStr ''schema'', JObj [(KStr ''$ref'', JStr ''#/definitions/pkg.models.User'')])]"




text \<open>
  Both tables of the assembler, \<open>paths\<close> and \<open>definitions\<close>, are only ever changed by
  \<open>table[k].update(e)\<close>, where a missing \<open>table[k]\<close> starts as the empty dictionary
  (lines 263 to 266 and 281 to 282). \<open>table_update\<close> is that step, \<open>table_updates\<close> a
  sequence of them, \<open>entry_of\<close> the dictionary the table holds under a key (empty when
  there is none), and \<open>updates_for\<close> the pairs that a sequence of steps stores under
  one key, in order.
\<close>

definition table_update ::
  "(key \<times> json) list \<Rightarrow> key \<Rightarrow> (key \<times> json) list \<Rightarrow> error + (key \<times> json) list" where
  "table_update table k e =
     (case map_of table k of
        None \<Rightarrow> Inr (dict_set table k (JObj (dict_update [] e)))
      | Some (JObj cur) \<Rightarrow> Inr (dict_set table k (JObj (dict_update cur e)))
      | Some _ \<Rightarrow> Inl AttributeError)"

fun table_updates ::
  "(key \<times> json) list \<Rightarrow> (key \<times> (key \<times> json) list) list \<Rightarrow> error + (key \<times> json) list" where
  "table_updates table [] = Inr table"
| "table_updates table ((k, e) # evs) =
     (case table_update table k e of
        Inl err \<Rightarrow> Inl err
      | Inr table' \<Rightarrow> table_updates table' evs)"

definition entry_of :: "(key \<times> json) list \<Rightarrow> key \<Rightarrow> (key \<times> json) list" where
  "entry_of table k = (case map_of table k of Some (JObj cur) \<Rightarrow> cur | _ \<Rightarrow> [])"

definition updates_for :: "key \<Rightarrow> (key \<times> (key \<times> json) list) list \<Rightarrow> (key \<times> json) list" where
  "updates_for k evs = concat (map snd (filter (\<lambda>ev. fst ev = k) evs))"

text \<open>
  What a run of the assembler does to its two tables, apart from the tables: the
  updates of \<open>definitions\<close> that a list of hoisted objects asks for, the operations and
  the updates that the handlers of one route give, and the updates of \<open>paths\<close> and of
  \<open>definitions\<close> that all routes give. \<open>None\<close> stands for an exception that does not
  depend on the tables.
\<close>

fun definition_events :: "json list \<Rightarrow> (key \<times> (key \<times> json) list) list option" where
  "definition_events [] = Some []"
| "definition_events (definition # defs) =
     (case definition of
        JObj d \<Rightarrow>
          if dict_get d (KStr ''id'') = JNull then definition_events defs
          else (case hash_key (dict_get d (KStr ''id'')) of
                  Inl e \<Rightarrow> None
                | Inr k \<Rightarrow> map_option (\<lambda>evs. (k, dict_del d (KStr ''id'')) # evs)
                             (definition_events defs))
      | _ \<Rightarrow> None)"

fun methods_events ::
  "env \<Rightarrow> (string \<Rightarrow> string) \<Rightarrow> string option \<Rightarrow> (string \<times> string option) list
   \<Rightarrow> (key \<times> json) list
   \<Rightarrow> ((key \<times> json) list \<times> (key \<times> (key \<times> json) list) list) option" where
  "methods_events env process_doc kw [] operations = Some (operations, [])"
| "methods_events env process_doc kw ((verb, method) # methods) operations =
     (case method_fragment env process_doc kw method of
        Inl e \<Rightarrow> None
      | Inr None \<Rightarrow> methods_events env process_doc kw methods operations
      | Inr (Some (summary, description, swag, defs, params, responses)) \<Rightarrow>
          (case definition_events defs of
             None \<Rightarrow> None
           | Some dev \<Rightarrow>
               (case build_operation summary description swag params responses of
                  Inl e \<Rightarrow> None
                | Inr operation \<Rightarrow>
                    (case methods_events env process_doc kw methods
                            (dict_set operations (KStr verb) operation) of
                       None \<Rightarrow> None
                     | Some (operations', dev') \<Rightarrow> Some (operations', dev @ dev')))))"

fun rules_events ::
  "env \<Rightarrow> (string \<Rightarrow> string) \<Rightarrow> (string \<Rightarrow> string) \<Rightarrow> string option
   \<Rightarrow> (string \<times> (string \<times> string option) list) list
   \<Rightarrow> ((key \<times> (key \<times> json) list) list \<times> (key \<times> (key \<times> json) list) list) option" where
  "rules_events env rule_parser process_doc kw [] = Some ([], [])"
| "rules_events env rule_parser process_doc kw ((rule, methods) # rest) =
     (case methods_events env process_doc kw methods [] of
        None \<Rightarrow> None
      | Some (operations, dev) \<Rightarrow>
          (case rules_events env rule_parser process_doc kw rest of
             None \<Rightarrow> None
           | Some (pev, dev') \<Rightarrow>
               Some ((if operations = [] then [] else [(KStr (rule_parser rule), operations)]) @ pev,
                     dev @ dev')))"

text \<open>
  The operation that discovery alone produces for a route and a verb (the last one, when
  several rules map to the same route), and the operation that a document holds for a
  route and a verb.
\<close>

definition discovered_operation ::
  "env \<Rightarrow> (string \<times> (string \<times> string option) list) list \<Rightarrow> (string \<Rightarrow> string)
   \<Rightarrow> (string \<Rightarrow> string) \<Rightarrow> string option \<Rightarrow> string \<Rightarrow> string \<Rightarrow> json option" where
  "discovered_operation env swagger_endpoints rule_parser process_doc kw route verb =
     (case rules_events env rule_parser process_doc kw swagger_endpoints of
        None \<Rightarrow> None
      | Some (pev, dev) \<Rightarrow> map_of (rev (updates_for (KStr route) pev)) (KStr verb))"

definition operation_at :: "(key \<times> json) list \<Rightarrow> string \<Rightarrow> string \<Rightarrow> json option" where
  "operation_at doc route verb =
     map_of (entry_of (entry_of doc (KStr ''paths'')) (KStr route)) (KStr verb)"

text \<open>
  A small application: one route whose \<open>post\<close> handler is documented and whose
  \<open>get\<close> handler is not, the documents it gives alone and over a template.
\<close>

definition example_fragment :: json where
  "example_fragment =
     JObj [(KStr ''parameters'', JList [item_entry]),
           (KStr ''responses'', JObj [(KInt 200, JObj [(KStr ''description'', JStr ''ok'')])]),
           (KStr ''tags'', JList [JStr ''items''])]"

definition docs_env :: env where
  "docs_env =
     \<lparr> registry = (\<lambda>module name. Inl LookupError),
       yaml_load = (\<lambda>text. Inr example_fragment),
       read_file = (\<lambda>path. Inl FileError),
       py_repr = (\<lambda>j. ''{}'') \<rparr>"

definition example_doc :: string where
  "example_doc = ''Create an item'' @ [CHR 0x0A] @ ''Stores it'' @ [CHR 0x0A] @ ''---'' @ [CHR 0x0A] @ ''parameters: ...''"

definition example_endpoints :: "(string \<times> (string \<times> string option) list) list" where
  "example_endpoints = [(''/items'', [(''post'', Some example_doc), (''get'', None)])]"

definition example_template :: "(key \<times> json) list" where
  "example_template =
     [(KStr ''info'', JObj [(KStr ''title'', JStr ''Shop'')]),
      (KStr ''paths'',
       JObj [(KStr ''/items'',
              JObj [(KStr ''post'', JObj [(KStr ''summary'', JStr ''old'')]),
                    (KStr ''delete'', JObj [(KStr ''summary'', JStr ''Remove'')])])])]"

definition example_operation :: json where
  "example_operation =
     JObj [(KStr ''summary'', JStr ''Create an item''),
           (KStr ''description'', JStr ''Stores it''),
           (KStr ''responses'', JObj [(KStr ''200'', JObj [(KStr ''description'', JStr ''ok'')])]),
           (KStr ''parameters'', JList [item_entry_done]),
           (KStr ''tags'', JList [JStr ''items''])]"

definition example_definitions :: json where
  "example_definitions =
     JObj [(KStr ''Item'',
            JObj [(KStr ''properties'', JObj [(KStr ''name'', JObj [(KStr ''type'', JStr ''string'')])])])]"

definition example_out :: "(key \<times> json) list" where
  "example_out =
     [(KStr ''swagger'', JStr ''2.0''),
      (KStr ''info'', JObj [(KStr ''version'', JStr ''0.0.0''),
                            (KStr ''title'', JStr ''Cool product name'')]),
      (KStr ''paths'', JObj [(KStr ''/items'', JObj [(KStr ''post'', example_operation)])]),
      (KStr ''definitions'', example_definitions)]"

definition example_merged :: "(key \<times> json) list" where
  "example_merged =
     [(KStr ''swagger'', JStr ''2.0''),
      (KStr ''info'', JObj [(KStr ''title'', JStr ''Shop'')]),
      (KStr ''paths'',
       JObj [(KStr ''/items'',
              JObj [(KStr ''post'', example_operation),
                    (KStr ''delete'', JObj [(KStr ''summary'', JStr ''Remove'')])])]),
      (KStr ''definitions'', example_definitions)]"


text \<open>Two schemas with the same identifier and different keys.\<close>

definition pet_required :: "(key \<times> json) list" where
  "pet_required = [(KStr ''id'', JStr ''Pet''), (KStr ''required'', JList [JStr ''name''])]"

definition pet_typed :: "(key \<times> json) list" where
  "pet_typed = [(KStr ''id'', JStr ''Pet''), (KStr ''type'', JStr ''object'')]"

section \<open>Dictionaries and the loop\<close>

lemma map_of_dict_set: "map_of (dict_set kvs k v) = (map_of kvs)(k \<mapsto> v)"
  by (induction kvs) (auto simp: fun_eq_iff)




lemma keys_dict_set: "fst ` set (dict_set kvs k v) = insert k (fst ` set kvs)"
proof (induction kvs)
  case Nil
  then show ?case by simp
next
  case (Cons kv kvs)
  then show ?case by (cases kv) (simp, blast)
qed


lemma dict_set_same_keys: "k \<in> fst ` set kvs \<Longrightarrow> map fst (dict_set kvs k v) = map fst kvs"
proof (induction kvs)
  case Nil
  then show ?case by simp
next
  case (Cons kv kvs)
  then show ?case by (cases kv) (simp, force)
qed


lemma dict_del_absent: "k \<notin> fst ` set kvs \<Longrightarrow> dict_del kvs k = kvs"
  by (induction kvs) (auto simp: dict_del_def)

lemma for_items_append:
  "for_items body pre acc = Inr (pre', acc') \<Longrightarrow>
   (\<forall>x\<in>set pre. \<forall>i d. body x \<noteq> Inr (Return i d)) \<Longrightarrow>
   for_items body (pre @ xs) acc =
     (case for_items body xs acc' of Inl e \<Rightarrow> Inl e | Inr (xs', d) \<Rightarrow> Inr (pre' @ xs', d))"
proof (induction pre arbitrary: acc pre')
  case Nil
  then show ?case by (auto split: sum.splits)
next
  case (Cons x pre)
  from Cons.prems obtain x' ds where bx: "body x = Inr (Next x' ds)"
    by (auto split: sum.splits step.splits)
  with Cons.prems obtain rest' where r: "for_items body pre (acc @ ds) = Inr (rest', acc')" "pre' = x' # rest'"
    by (auto split: sum.splits)
  have "for_items body (pre @ xs) (acc @ ds) =
     (case for_items body xs acc' of Inl e \<Rightarrow> Inl e | Inr (xs', d) \<Rightarrow> Inr (rest' @ xs', d))"
    using Cons.IH[OF r(1)] Cons.prems(2) by simp
  then show ?case using bx r(2) by (simp split: sum.splits)
qed


lemma extract_item_Return:
  "extract_item env level item = Inr (Return i d) \<Longrightarrow> import_entry item"
  apply (subst (asm) extract_item.simps)
  apply (auto simp: import_entry_def split: sum.splits bool.splits if_splits prod.splits)
  done


lemma split_from_nonempty: "split_from sep cur s \<noteq> []"
  by (induction sep cur s rule: split_from.induct) (subst split_from.simps, simp)

lemma split_from_marker:
  "str_find sep s \<noteq> None \<Longrightarrow> sep \<noteq> [] \<Longrightarrow> \<exists>a b cs. split_from sep cur s = a # b # cs"
proof (induction sep cur s rule: split_from.induct)
  case (1 sep cur s)
  show ?case
  proof (cases s)
    case Nil
    with "1.prems" show ?thesis by simp
  next
    case (Cons c cs)
    show ?thesis
    proof (cases "take (length sep) s = sep")
      case True
      obtain b bs where "split_from sep [] (drop (length sep) s) = b # bs"
        using split_from_nonempty by (meson list.exhaust)
      then show ?thesis
        using True Cons "1.prems"(2) by (subst split_from.simps) simp
    next
      case False
      then have "str_find sep (tl s) \<noteq> None"
        using "1.prems"(1) Cons by (auto split: if_splits)
      then obtain a b bs where "split_from sep (cur @ [hd s]) (tl s) = a # b # bs"
        using "1.IH"(2) False Cons "1.prems"(2) by blast
      then show ?thesis
        using False Cons by (subst split_from.simps) simp
    qed
  qed
qed

lemma extract_item_import:
  assumes "py_get item ''schema'' = Inr schema"
    and "py_get schema ''$ref'' = Inr (JStr ref)"
    and "str_find ''import/'' ref \<noteq> None"
    and "path = py_split ref ''import/'' ! 1"
    and "registry env (py_join ''.'' (butlast (py_split path ''.''))) (last (py_split path ''.'')) = Inr (JObj d)"
  shows "extract_item env level item =
           Inr (Return (obj_set item ''schema'' (obj_set schema ''$ref'' (JStr (''#/definitions/'' @ path))))
                  [JObj (dict_set d (KStr ''id'') (JStr path))])"
proof -
  have nn: "schema \<noteq> JNull" using assms(2) by auto
  have imp: "is_import_ref schema = Inr True"
    using assms(2,3) nn by (simp add: is_import_ref_def)
  obtain a cs where sp: "py_split ref ''import/'' = a # path # cs"
    using split_from_marker[OF assms(3), of "[]"] assms(4) by (auto simp: py_split_def)
  have "import_definition env item schema =
           Inr (Return (obj_set item ''schema'' (obj_set schema ''$ref'' (JStr (''#/definitions/'' @ path))))
                  [JObj (dict_set d (KStr ''id'') (JStr path))])"
    using assms(2,5) sp by (simp add: import_definition_def Let_def)
  then show ?thesis
    using assms(1) imp by (subst extract_item.simps) simp
qed





lemma extract_array_defs_None:
  "extract_array_defs body src = Inr (r, d) \<Longrightarrow> py_get src ''items'' = Inr JNull \<Longrightarrow> r = None \<and> d = []"
  by (simp add: extract_array_defs_def)

lemma extract_array_defs_Some:
  "extract_array_defs body src = Inr (Some i, d) \<Longrightarrow> \<exists>it. py_get src ''items'' = Inr it \<and> it \<noteq> JNull"
  by (auto simp: extract_array_defs_def split: sum.splits if_splits bool.splits)












section \<open>Concrete runs\<close>

lemma extract_item_entry:
  "extract_definitions example_env [item_entry] 0 = Inr ([item_entry_done], [JObj item_schema])"
  by (simp add: extract_definitions_def extract_item.simps item_entry_def item_entry_done_def
      item_schema_def is_import_ref_def dict_get_def extract_array_defs_def put_items_def
      put_values_def replace_schema_def ref_string_def)

lemma split_user_ref: "py_split ''#/import/pkg.models.User'' ''import/'' = [''#/'', ''pkg.models.User'']"
  by (simp add: py_split_def split_from.simps)

lemma split_user_path: "py_split ''pkg.models.User'' ''.'' = [''pkg'', ''models'', ''User'']"
  by (simp add: py_split_def split_from.simps)

section \<open>The import case\<close>

text \<open>
  Claim C2. In a list of entries, let \<open>e\<close> be the first entry whose schema's \<open>$ref\<close>
  holds the marker \<open>import/\<close>, the entries \<open>pre\<close> before it being processed without an
  exception, and let the lookup of the dotted path (the piece of the reference after the
  marker) give a dictionary. Then the call on the whole list returns exactly one object,
  the looked-up dictionary with its \<open>id\<close> set to the dotted path, whatever the entries
  \<open>post\<close> behind \<open>e\<close> are; the \<open>$ref\<close> of \<open>e\<close> points to
  \<open>#/definitions/<dotted-path>\<close>, and the entries behind it are untouched.
\<close>

theorem import_reference_short_circuits:
  assumes "\<forall>x\<in>set pre. \<not> import_entry x"
    and "extract_definitions env pre level = Inr (pre', ds)"
    and "py_get e ''schema'' = Inr schema"
    and "py_get schema ''$ref'' = Inr (JStr ref)"
    and "str_find ''import/'' ref \<noteq> None"
    and "path = py_split ref ''import/'' ! 1"
    and "registry env (py_join ''.'' (butlast (py_split path ''.''))) (last (py_split path ''.''))
           = Inr (JObj d)"
  shows "extract_definitions env (pre @ e # post) level =
           Inr (pre' @ obj_set e ''schema''
                         (obj_set schema ''$ref'' (JStr (''#/definitions/'' @ path))) # post,
                [JObj (dict_set d (KStr ''id'') (JStr path))])"
proof -
  have noret: "\<forall>x\<in>set pre. \<forall>i r. extract_item env level x \<noteq> Inr (Return i r)"
    using assms(1) extract_item_Return by blast
  have pre: "for_items (extract_item env level) pre [] = Inr (pre', ds)"
    using assms(2) by (simp add: extract_definitions_def)
  have e: "extract_item env level e =
           Inr (Return (obj_set e ''schema'' (obj_set schema ''$ref'' (JStr (''#/definitions/'' @ path))))
                  [JObj (dict_set d (KStr ''id'') (JStr path))])"
    by (rule extract_item_import[OF assms(3,4,5,6,7)])
  show ?thesis
    unfolding extract_definitions_def for_items_append[OF pre noret]
    using e by simp
qed

theorem import_reference_short_circuits_witness:
  "extract_definitions example_env ([item_entry] @ user_entry # [item_entry]) 0 =
     Inr ([item_entry_done] @ user_entry_done # [item_entry],
          [JObj [(KStr ''type'', JStr ''object''), (KStr ''id'', JStr ''pkg.models.User'')]])"
proof -
  have a: "\<forall>x\<in>set [item_entry]. \<not> import_entry x"
    by (simp add: import_entry_def item_entry_def is_import_ref_def dict_get_def)
  have s: "py_get user_entry ''schema'' = Inr (JObj [(KStr ''$ref'', JStr ''#/import/pkg.models.User'')])"
    by (simp add: user_entry_def dict_get_def)
  have r: "py_get (JObj [(KStr ''$ref'', JStr ''#/import/pkg.models.User'')]) ''$ref''
             = Inr (JStr ''#/import/pkg.models.User'')"
    by (simp add: dict_get_def)
  have f: "str_find ''import/'' ''#/import/pkg.models.User'' \<noteq> None" by simp
  have p: "''pkg.models.User'' = py_split ''#/import/pkg.models.User'' ''import/'' ! 1"
    by (simp add: split_user_ref)
  have g: "registry example_env (py_join ''.'' (butlast (py_split ''pkg.models.User'' ''.'')))
             (last (py_split ''pkg.models.User'' ''.'')) = Inr (JObj [(KStr ''type'', JStr ''object'')])"
    by (simp add: split_user_path example_env_def)
  show ?thesis
    using import_reference_short_circuits[OF a extract_item_entry s r f p g, of "[item_entry]"]
    by (simp add: user_entry_def user_entry_done_def)
qed

section \<open>Entries that the loop reaches\<close>




lemma dict_set_fresh: "k \<notin> fst ` set kvs \<Longrightarrow> dict_set kvs k v = kvs @ [(k, v)]"
  by (induction kvs) auto

lemma dict_update_fresh:
  "distinct (map fst e) \<Longrightarrow> fst ` set d \<inter> fst ` set e = {} \<Longrightarrow> dict_update d e = d @ e"
proof (induction e arbitrary: d)
  case Nil
  then show ?case by simp
next
  case (Cons kv e)
  obtain k v where kv: "kv = (k, v)" by (cases kv)
  have fresh: "k \<notin> fst ` set d" using Cons.prems(2) kv by auto
  have "fst ` set (d @ [(k, v)]) \<inter> fst ` set e = {}"
    using Cons.prems kv by auto
  then have "dict_update (d @ [(k, v)]) e = (d @ [(k, v)]) @ e"
    using Cons.IH Cons.prems(1) by simp
  then show ?case using kv fresh by (simp add: dict_set_fresh)
qed

lemma distinct_dict_del: "distinct (map fst kvs) \<Longrightarrow> distinct (map fst (dict_del kvs k))"
  by (simp add: dict_del_def distinct_map_filter)


section \<open>Identified schemas below the top level\<close>





section \<open>Identified schemas at the top level\<close>




section \<open>Schemas hoisted before an import entry\<close>




section \<open>The documentation block\<close>

lemma str_find_None_iff: "str_find pat s = None \<longleftrightarrow> (\<nexists>pre post. s = pre @ pat @ post)"
proof (induction s)
  case Nil
  then show ?case by auto
next
  case (Cons c cs)
  show ?case
  proof (cases "take (length pat) (c # cs) = pat")
    case True
    then have "c # cs = [] @ pat @ drop (length pat) (c # cs)"
      by (metis append_Nil append_take_drop_id)
    then show ?thesis using True by (metis str_find.simps(2) option.distinct(1))
  next
    case False
    have "(\<exists>pre post. c # cs = pre @ pat @ post) \<longleftrightarrow> (\<exists>pre post. cs = pre @ pat @ post)"
    proof
      assume "\<exists>pre post. c # cs = pre @ pat @ post"
      then obtain pre post where pp: "c # cs = pre @ pat @ post" by blast
      show "\<exists>pre post. cs = pre @ pat @ post"
      proof (cases pre)
        case Nil
        then have "take (length pat) (c # cs) = pat" using pp by simp
        then show ?thesis using False by simp
      next
        case (Cons a pre')
        then show ?thesis using pp by auto
      qed
    next
      assume "\<exists>pre post. cs = pre @ pat @ post"
      then obtain pre post where "cs = pre @ pat @ post" by blast
      then have "c # cs = (c # pre) @ pat @ post" by simp
      then show "\<exists>pre post. c # cs = pre @ pat @ post" by blast
    qed
    then show ?thesis using False Cons.IH by simp
  qed
qed

lemma str_find_first:
  assumes "pat \<noteq> []" and "\<nexists>a b. pre @ butlast pat = a @ pat @ b"
  shows "str_find pat (pre @ pat @ post) = Some (length pre)"
  using assms(2)
proof (induction pre)
  case Nil
  obtain c cs where cs: "pat @ post = c # cs" using assms(1) by (cases "pat @ post") auto
  have "take (length pat) (pat @ post) = pat" by simp
  then show ?case using cs by simp
next
  case (Cons c pre)
  let ?xs = "(c # pre) @ butlast pat"
  have whole: "(c # pre) @ pat @ post = ?xs @ (last pat # post)"
    using assms(1) by (metis append.assoc append_Cons append_Nil append_butlast_last_id)
  have len: "length pat \<le> length ?xs" using assms(1) by (cases pat rule: rev_cases) auto
  have notpre: "take (length pat) ((c # pre) @ pat @ post) \<noteq> pat"
  proof
    assume t: "take (length pat) ((c # pre) @ pat @ post) = pat"
    have "length pat - length ?xs = 0" using len by (rule diff_is_0_eq')
    then have "take (length pat) (?xs @ (last pat # post)) = take (length pat) ?xs"
      by (simp only: take_append take_0 append_Nil2)
    then have "take (length pat) ?xs = pat" using t whole by metis
    then have "?xs = [] @ pat @ drop (length pat) ?xs"
      by (metis append_Nil append_take_drop_id)
    then show False using Cons.prems by blast
  qed
  have "\<nexists>a b. pre @ butlast pat = a @ pat @ b"
  proof
    assume "\<exists>a b. pre @ butlast pat = a @ pat @ b"
    then obtain a b where "pre @ butlast pat = a @ pat @ b" by blast
    then have "(c # pre) @ butlast pat = (c # a) @ pat @ b" by simp
    then show False using Cons.prems by blast
  qed
  then have "str_find pat (pre @ pat @ post) = Some (length pre)"
    using Cons.IH by blast
  then show ?case using notpre by simp
qed

lemma str_find_line_feed:
  "CHR 0x0A \<notin> set first \<Longrightarrow> str_find [CHR 0x0A] (first @ [CHR 0x0A] @ rest) = Some (length first)"
  by (induction first) auto

text \<open>
  Claim C8, as amended. Let the documentation that is parsed be \<open>first\<close>, a line feed and
  \<open>rest\<close>, with no line feed in \<open>first\<close>. The separator is the first occurrence of the
  three characters \<open>---\<close> anywhere in \<open>rest\<close>, at the beginning of a line or inside one.
  If \<open>rest\<close> does not hold them, the description is the whole of \<open>rest\<close>, sanitized,
  and there is no fragment. If \<open>rest\<close> is \<open>pre\<close>, then \<open>---\<close>, then \<open>post\<close>, with no
  earlier occurrence, the description is \<open>pre\<close> without its last character, sanitized, and
  the fragment is what the loader makes of the text from that last character on (from the
  line feed itself when \<open>pre\<close> is empty).
\<close>

theorem fragment_starts_at_first_dashes:
  assumes "full_doc \<noteq> []"
    and "resolve_doc env full_doc kw = Inr (first @ [CHR 0x0A] @ rest)"
    and "CHR 0x0A \<notin> set first"
  shows "((\<nexists>pre post. rest = pre @ ''---'' @ post) \<longrightarrow>
            parse_docstring env (Some full_doc) process_doc kw =
              Inr (Some (process_doc first), Some (process_doc rest), JNull)) \<and>
         (\<forall>pre post. rest = pre @ ''---'' @ post \<and> (\<nexists>a b. pre @ ''--'' = a @ ''---'' @ b) \<longrightarrow>
            parse_docstring env (Some full_doc) process_doc kw =
              (case yaml_load env (drop (length first + length pre) (first @ [CHR 0x0A] @ rest)) of
                 Inl e \<Rightarrow> Inl e
               | Inr swag \<Rightarrow> Inr (Some (process_doc first), Some (process_doc (butlast pre)), swag)))"
proof -
  let ?doc = "first @ [CHR 0x0A] @ rest"
  have lf: "str_find [CHR 0x0A] ?doc = Some (length first)"
    by (rule str_find_line_feed[OF assms(3)])
  have tk: "take (length first) ?doc = first" by simp
  have dr: "drop (length first + 1) ?doc = rest" by simp
  have p: "parse_docstring env (Some full_doc) process_doc kw = split_doc env process_doc ?doc"
    using assms(1,2) by (simp add: parse_docstring_def)
  have none: "split_doc env process_doc ?doc =
              Inr (Some (process_doc first), Some (process_doc rest), JNull)"
    if "\<nexists>pre post. rest = pre @ ''---'' @ post"
  proof -
    have "str_find ''---'' rest = None" using that str_find_None_iff by blast
    then show ?thesis
      unfolding split_doc_def lf by (simp only: option.case Let_def tk dr)
  qed
  have some: "split_doc env process_doc ?doc =
              (case yaml_load env (drop (length first + length pre) ?doc) of
                 Inl e \<Rightarrow> Inl e
               | Inr swag \<Rightarrow> Inr (Some (process_doc first), Some (process_doc (butlast pre)), swag))"
    if "rest = pre @ ''---'' @ post" "\<nexists>a b. pre @ ''--'' = a @ ''---'' @ b" for pre post
  proof -
    have "str_find ''---'' (pre @ ''---'' @ post) = Some (length pre)"
      using str_find_first[of "''---''" pre post] that(2) by simp
    then have f: "str_find ''---'' rest = Some (length pre)" using that(1) by simp
    have bl: "take (length first + length pre - (length first + 1)) rest = butlast pre"
      using that(1) by (simp add: butlast_conv_take)
    show ?thesis
      unfolding split_doc_def lf by (simp only: option.case Let_def tk dr f bl)
  qed
  show ?thesis using p none some by simp
qed

lemma resolve_doc_plain: "resolve_doc env full_doc None = Inr full_doc"
  by (simp add: resolve_doc_def)

theorem fragment_starts_at_first_dashes_witness:
  "parse_docstring example_env (Some (''s'' @ [CHR 0x0A] @ ''plain text'')) sanitize None =
     Inr (Some ''s'', Some ''plain text'', JNull) \<and>
   parse_docstring example_env (Some (''s'' @ [CHR 0x0A] @ ''foo --- bar'')) sanitize None =
     Inr (Some ''s'', Some ''foo'', JStr '' --- bar'')"
proof -
  have lf: "CHR 0x0A \<notin> set ''s''" by simp
  have n1: "''s'' @ [CHR 0x0A] @ ''plain text'' \<noteq> []" by simp
  have n2: "''s'' @ [CHR 0x0A] @ ''foo --- bar'' \<noteq> []" by simp
  have "str_find ''---'' ''plain text'' = None" by simp
  then have absent: "\<nexists>pre post. ''plain text'' = pre @ ''---'' @ post"
    using str_find_None_iff by blast
  have "str_find ''---'' ''foo --'' = None" by simp
  then have firstocc: "\<nexists>a b. ''foo '' @ ''--'' = a @ ''---'' @ b"
    using str_find_None_iff[of "''---''" "''foo --''"] by simp
  have dec: "''foo --- bar'' = ''foo '' @ ''---'' @ '' bar''" by simp
  have a: "parse_docstring example_env (Some (''s'' @ [CHR 0x0A] @ ''plain text'')) sanitize None =
             Inr (Some (sanitize ''s''), Some (sanitize ''plain text''), JNull)"
    using fragment_starts_at_first_dashes[where process_doc = sanitize and env = example_env,
            OF n1 resolve_doc_plain lf]
      absent by blast
  have b: "parse_docstring example_env (Some (''s'' @ [CHR 0x0A] @ ''foo --- bar'')) sanitize None =
              (case yaml_load example_env
                      (drop (length ''s'' + length ''foo '') (''s'' @ [CHR 0x0A] @ ''foo --- bar'')) of
                 Inl e \<Rightarrow> Inl e
               | Inr swag \<Rightarrow> Inr (Some (sanitize ''s''), Some (sanitize (butlast ''foo '')), swag))"
    using fragment_starts_at_first_dashes[where process_doc = sanitize and env = example_env,
            OF n2 resolve_doc_plain lf]
      dec firstocc by blast
  show ?thesis
    using a b by (simp add: sanitize_def example_env_def)
qed

theorem fragment_starts_at_first_dashes_counterexample:
  "''---'' \<notin> set (map py_strip (py_splitlines ''foo --- bar'')) \<and>
   parse_docstring example_env (Some (''s'' @ [CHR 0x0A] @ ''foo --- bar'')) sanitize None =
     Inr (Some ''s'', Some ''foo'', JStr '' --- bar'')"
  by (simp add: py_splitlines_def py_strip_def is_space_def is_linebreak_def parse_docstring_def
      resolve_doc_def split_doc_def sanitize_def example_env_def)

text \<open>
  Claim C7. The claim has the summary of a one-line documentation pass through the
  sanitization function, as the first line of a longer documentation does (line 72).
  Line 82 returns the text itself: with a sanitization function that puts its argument
  between angle brackets, the summary of the one-line documentation \<open>Get an item\<close> is
  \<open>Get an item\<close>, not \<open><Get an item>\<close>; the description is absent and there
  is no fragment.
\<close>

theorem one_line_summary_is_not_sanitized:
  "parse_docstring env (Some ''Get an item'') (\<lambda>s. ''<'' @ s @ ''>'') None =
     Inr (Some ''Get an item'', None, JNull) \<and>
   parse_docstring env (Some (''Get an item'' @ [CHR 0x0A] @ ''now'')) (\<lambda>s. ''<'' @ s @ ''>'') None =
     Inr (Some ''<Get an item>'', Some ''<now>'', JNull)"
  by (simp add: parse_docstring_def resolve_doc_def split_doc_def)

section \<open>Tables of dictionaries\<close>

lemma dict_update_append: "dict_update d (e1 @ e2) = dict_update (dict_update d e1) e2"
  by (induction e1 arbitrary: d) auto

lemma map_of_dict_update:
  "map_of (dict_update d e) k = (case map_of (rev e) k of Some v \<Rightarrow> Some v | None \<Rightarrow> map_of d k)"
proof (induction e arbitrary: d)
  case Nil
  then show ?case by simp
next
  case (Cons kv e)
  obtain k' v' where kv: "kv = (k', v')" by (cases kv)
  show ?case
    using Cons.IH[of "dict_set d k' v'"] kv
    by (auto simp: map_of_dict_set map_add_def split: option.splits)
qed

lemma keys_dict_update: "fst ` set (dict_update d e) = fst ` set d \<union> fst ` set e"
proof (induction e arbitrary: d)
  case Nil
  then show ?case by simp
next
  case (Cons kv e)
  obtain k' v' where kv: "kv = (k', v')" by (cases kv)
  show ?case using Cons.IH[of "dict_set d k' v'"] kv by (auto simp: keys_dict_set)
qed

lemma dict_update_same_keys:
  "fst ` set e \<subseteq> fst ` set d \<Longrightarrow> map fst (dict_update d e) = map fst d"
proof (induction e arbitrary: d)
  case Nil
  then show ?case by simp
next
  case (Cons kv e)
  obtain k' v' where kv: "kv = (k', v')" by (cases kv)
  have k': "k' \<in> fst ` set d" using Cons.prems kv by auto
  have "fst ` set e \<subseteq> fst ` set (dict_set d k' v')"
    using Cons.prems kv by (auto simp: keys_dict_set)
  then have "map fst (dict_update (dict_set d k' v') e) = map fst (dict_set d k' v')"
    by (rule Cons.IH)
  then show ?case using kv k' by (simp add: dict_set_same_keys)
qed

lemma distinct_dict_set: "distinct (map fst d) \<Longrightarrow> distinct (map fst (dict_set d k v))"
proof (induction d)
  case Nil
  then show ?case by simp
next
  case (Cons kv d)
  then show ?case by (cases kv) (auto simp: keys_dict_set)
qed

lemma distinct_dict_update: "distinct (map fst d) \<Longrightarrow> distinct (map fst (dict_update d e))"
  by (induction e arbitrary: d) (auto simp: distinct_dict_set)

lemma alist_eqI:
  "distinct (map fst xs) \<Longrightarrow> map fst xs = map fst ys \<Longrightarrow> map_of xs = map_of ys \<Longrightarrow> xs = ys"
proof (induction xs arbitrary: ys)
  case Nil
  then show ?case by simp
next
  case (Cons x xs)
  obtain k v where x: "x = (k, v)" by (cases x)
  obtain y ys' where ys: "ys = y # ys'" using Cons.prems(2) by (cases ys) auto
  obtain v' where y: "y = (k, v')" using Cons.prems(2) x ys by (cases y) auto
  have "map_of (x # xs) k = map_of ys k" by (simp only: Cons.prems(3))
  then have vv: "v = v'" using x y ys by simp
  have kx: "k \<notin> fst ` set xs" using Cons.prems(1) x by simp
  have ky: "k \<notin> fst ` set ys'" using Cons.prems(1,2) x ys by (metis kx list.simps(9) list.inject set_map)
  have "map_of xs = map_of ys'"
  proof
    fix a
    show "map_of xs a = map_of ys' a"
    proof (cases "a = k")
      case True
      have "map_of xs k = None" "map_of ys' k = None"
        using kx ky by (simp_all add: map_of_eq_None_iff)
      then show ?thesis using True by simp
    next
      case False
      have "map_of (x # xs) a = map_of ys a" by (simp only: Cons.prems(3))
      then show ?thesis using False x y ys by simp
    qed
  qed
  then have "xs = ys'"
    using Cons.IH[of ys'] Cons.prems(1,2) ys by simp
  then show ?case using x y ys vv by simp
qed

lemma dict_update_idem:
  assumes "distinct (map fst d)"
  shows "dict_update (dict_update d e) e = dict_update d e"
proof (rule alist_eqI)
  show "distinct (map fst (dict_update (dict_update d e) e))"
    using assms by (simp add: distinct_dict_update)
  show "map fst (dict_update (dict_update d e) e) = map fst (dict_update d e)"
    by (rule dict_update_same_keys) (simp add: keys_dict_update)
  show "map_of (dict_update (dict_update d e) e) = map_of (dict_update d e)"
    by (rule ext) (simp add: map_of_dict_update split: option.splits)
qed

lemma table_update_sem:
  assumes "table_update table k e = Inr table'"
  shows "map_of table' = (map_of table)(k \<mapsto> JObj (dict_update (entry_of table k) e))"
  using assms
  by (auto simp: table_update_def entry_of_def map_of_dict_set split: option.splits json.splits)

lemma table_update_dict_set:
  "table_update table k e = Inr table' \<Longrightarrow> \<exists>v. table' = dict_set table k v"
  by (auto simp: table_update_def split: option.splits json.splits)

lemma table_update_keys:
  assumes "table_update table k e = Inr table'"
  shows "fst ` set table' = insert k (fst ` set table)"
    and "k \<in> fst ` set table \<Longrightarrow> map fst table' = map fst table"
    and "distinct (map fst table) \<Longrightarrow> distinct (map fst table')"
proof -
  obtain v where v: "table' = dict_set table k v"
    using table_update_dict_set[OF assms] by blast
  show "fst ` set table' = insert k (fst ` set table)"
    unfolding v by (rule keys_dict_set)
  show "k \<in> fst ` set table \<Longrightarrow> map fst table' = map fst table"
    unfolding v by (rule dict_set_same_keys)
  show "distinct (map fst table) \<Longrightarrow> distinct (map fst table')"
    unfolding v by (rule distinct_dict_set)
qed

lemma entry_of_update:
  assumes "table_update table k e = Inr table'"
  shows "entry_of table' k' = (if k' = k then dict_update (entry_of table k) e else entry_of table k')"
  using table_update_sem[OF assms] by (simp add: entry_of_def)

lemma updates_for_Cons:
  "updates_for k ((k', e) # evs) = (if k' = k then e @ updates_for k evs else updates_for k evs)"
  by (simp add: updates_for_def)

lemma updates_for_absent: "k \<notin> fst ` set evs \<Longrightarrow> updates_for k evs = []"
  by (induction evs) (auto simp: updates_for_def)

lemma table_updates_sem:
  "table_updates table evs = Inr table' \<Longrightarrow>
   map_of table' k =
     (if k \<in> fst ` set evs then Some (JObj (dict_update (entry_of table k) (updates_for k evs)))
      else map_of table k)"
proof (induction evs arbitrary: table)
  case Nil
  then show ?case by simp
next
  case (Cons ev evs)
  obtain k0 e0 where ev: "ev = (k0, e0)" by (cases ev)
  from Cons.prems ev obtain t1 where
    t1: "table_update table k0 e0 = Inr t1" and rest: "table_updates t1 evs = Inr table'"
    by (auto split: sum.splits)
  note ih = Cons.IH[OF rest]
  show ?case
  proof (cases "k = k0")
    case True
    show ?thesis
    proof (cases "k0 \<in> fst ` set evs")
      case True
      then show ?thesis
        using ih \<open>k = k0\<close> ev entry_of_update[OF t1, of k0]
        by (simp add: updates_for_Cons dict_update_append)
    next
      case False
      then show ?thesis
        using ih \<open>k = k0\<close> ev table_update_sem[OF t1]
        by (simp add: updates_for_Cons updates_for_absent)
    qed
  next
    case False
    then show ?thesis
      using ih ev entry_of_update[OF t1, of k] table_update_sem[OF t1]
      by (simp add: updates_for_Cons)
  qed
qed

lemma table_updates_keys:
  "table_updates table evs = Inr table' \<Longrightarrow> fst ` set evs \<subseteq> fst ` set table
   \<Longrightarrow> map fst table' = map fst table"
proof (induction evs arbitrary: table)
  case Nil
  then show ?case by simp
next
  case (Cons ev evs)
  obtain k0 e0 where ev: "ev = (k0, e0)" by (cases ev)
  from Cons.prems ev obtain t1 where
    t1: "table_update table k0 e0 = Inr t1" and rest: "table_updates t1 evs = Inr table'"
    by (auto split: sum.splits)
  have k0: "k0 \<in> fst ` set table" using Cons.prems(2) ev by simp
  have "fst ` set evs \<subseteq> fst ` set t1"
    using Cons.prems(2) table_update_keys(1)[OF t1] by auto
  then have "map fst table' = map fst t1" by (rule Cons.IH[OF rest])
  then show ?case using table_update_keys(2)[OF t1 k0] by simp
qed

lemma table_updates_distinct:
  "table_updates table evs = Inr table' \<Longrightarrow> distinct (map fst table)
   \<Longrightarrow> distinct (map fst table')"
proof (induction evs arbitrary: table)
  case Nil
  then show ?case by simp
next
  case (Cons ev evs)
  obtain k0 e0 where ev: "ev = (k0, e0)" by (cases ev)
  from Cons.prems ev obtain t1 where
    t1: "table_update table k0 e0 = Inr t1" and rest: "table_updates t1 evs = Inr table'"
    by (auto split: sum.splits)
  show ?case
    using Cons.IH[OF rest] table_update_keys(3)[OF t1] Cons.prems(2) by simp
qed

lemma table_updates_succeeds:
  "\<forall>k\<in>fst ` set evs. map_of table k = None \<or> (\<exists>c. map_of table k = Some (JObj c))
   \<Longrightarrow> \<exists>table'. table_updates table evs = Inr table'"
proof (induction evs arbitrary: table)
  case Nil
  then show ?case by simp
next
  case (Cons ev evs)
  obtain k0 e0 where ev: "ev = (k0, e0)" by (cases ev)
  have "map_of table k0 = None \<or> (\<exists>c. map_of table k0 = Some (JObj c))"
    using Cons.prems ev by simp
  then obtain t1 where t1: "table_update table k0 e0 = Inr t1"
    by (auto simp: table_update_def)
  have "\<forall>k\<in>fst ` set evs. map_of t1 k = None \<or> (\<exists>c. map_of t1 k = Some (JObj c))"
    using Cons.prems ev table_update_sem[OF t1] by auto
  then obtain t' where "table_updates t1 evs = Inr t'"
    using Cons.IH by blast
  then show ?case using ev t1 by simp
qed

lemma table_updates_append:
  "table_updates table (a @ b) =
     (case table_updates table a of Inl err \<Rightarrow> Inl err | Inr t \<Rightarrow> table_updates t b)"
  by (induction a arbitrary: table) (auto split: sum.splits)

lemma table_updates_fixed_point:
  assumes run: "table_updates table evs = Inr table'"
    and dist: "distinct (map fst table)"
    and entries: "\<forall>k\<in>fst ` set evs. distinct (map fst (entry_of table k))"
  shows "table_updates table' evs = Inr table'"
proof -
  have present: "map_of table' k = Some (JObj (dict_update (entry_of table k) (updates_for k evs)))"
    if "k \<in> fst ` set evs" for k
    using table_updates_sem[OF run, of k] that by simp
  then have "\<forall>k\<in>fst ` set evs. map_of table' k = None \<or> (\<exists>c. map_of table' k = Some (JObj c))"
    by simp
  then obtain t2 where t2: "table_updates table' evs = Inr t2"
    using table_updates_succeeds by blast
  have sub: "fst ` set evs \<subseteq> fst ` set table'"
  proof
    fix k assume "k \<in> fst ` set evs"
    then have "map_of table' k \<noteq> None" using present by simp
    then show "k \<in> fst ` set table'" by (simp add: map_of_eq_None_iff)
  qed
  have keys: "map fst t2 = map fst table'" by (rule table_updates_keys[OF t2 sub])
  have d': "distinct (map fst table')" by (rule table_updates_distinct[OF run dist])
  have maps: "map_of table' = map_of t2"
  proof
    fix k
    show "map_of table' k = map_of t2 k"
    proof (cases "k \<in> fst ` set evs")
      case True
      have e': "entry_of table' k = dict_update (entry_of table k) (updates_for k evs)"
        using present[OF True] by (simp add: entry_of_def)
      have "distinct (map fst (entry_of table k))" using entries True by blast
      then have "dict_update (entry_of table' k) (updates_for k evs) = entry_of table' k"
        unfolding e' by (rule dict_update_idem)
      then show ?thesis
        using table_updates_sem[OF t2, of k] True present[OF True] e' by simp
    next
      case False
      then show ?thesis using table_updates_sem[OF t2, of k] by simp
    qed
  qed
  have "table' = t2" by (rule alist_eqI[OF d' keys[symmetric] maps])
  then show ?thesis using t2 by simp
qed

section \<open>What a run does to the tables\<close>

lemma merge_definition_events:
  "merge_definitions table defs = Inr table' \<longleftrightarrow>
     (\<exists>evs. definition_events defs = Some evs \<and> table_updates table evs = Inr table')"
proof (induction defs arbitrary: table)
  case Nil
  then show ?case by auto
next
  case (Cons dfn defs)
  show ?case
  proof (cases dfn)
    case (JObj d)
    show ?thesis
    proof (cases "dict_get d (KStr ''id'') = JNull")
      case True
      then show ?thesis using JObj Cons.IH by (simp add: merge_definition_def)
    next
      case False
      show ?thesis
      proof (cases "hash_key (dict_get d (KStr ''id''))")
        case (Inl e)
        then show ?thesis using JObj False by (simp add: merge_definition_def)
      next
        case (Inr k)
        have m: "merge_definition table dfn = table_update table k (dict_del d (KStr ''id''))"
          using JObj False Inr
          by (simp add: merge_definition_def table_update_def Let_def split: option.splits json.splits)
        show ?thesis
        proof (cases "table_update table k (dict_del d (KStr ''id''))")
          case (Inl err)
          then show ?thesis using JObj False Inr m by auto
        next
          case tu: (Inr t1)
          show ?thesis
            using JObj False Inr m tu Cons.IH[of t1] by auto
        qed
      qed
    qed
  qed (simp_all add: merge_definition_def)
qed

lemma for_methods_events:
  "for_methods env process_doc kw methods operations definitions = Inr (operations', definitions') \<longleftrightarrow>
     (\<exists>dev. methods_events env process_doc kw methods operations = Some (operations', dev) \<and>
            table_updates definitions dev = Inr definitions')"
proof (induction methods arbitrary: operations definitions)
  case Nil
  then show ?case by auto
next
  case (Cons vm methods)
  obtain verb handler where vm: "vm = (verb, handler)" by (cases vm)
  show ?case
  proof (cases "method_fragment env process_doc kw handler")
    case (Inl e)
    then show ?thesis using vm by simp
  next
    case (Inr frag)
    show ?thesis
    proof (cases frag)
      case None
      then show ?thesis using vm Inr Cons.IH by simp
    next
      case (Some f)
      obtain summary description swag defs params responses where
        f: "f = (summary, description, swag, defs, params, responses)" by (cases f)
      show ?thesis
      proof (cases "definition_events defs")
        case None
        then have "\<And>t. merge_definitions definitions defs \<noteq> Inr t"
          using merge_definition_events by auto
        then show ?thesis using vm Inr Some f None by (auto split: sum.splits)
      next
        case dev: (Some dev)
        show ?thesis
        proof (cases "build_operation summary description swag params responses")
          case (Inl e)
          then show ?thesis using vm Inr Some f dev by (auto split: sum.splits)
        next
          case op: (Inr operation)
          show ?thesis
          proof (cases "table_updates definitions dev")
            case (Inl err)
            then have "\<And>t. merge_definitions definitions defs \<noteq> Inr t"
              using merge_definition_events dev by auto
            then show ?thesis
              using vm Inr Some f dev op Inl
              by (auto simp: table_updates_append split: sum.splits option.splits)
          next
            case tu: (Inr d1)
            then have md: "merge_definitions definitions defs = Inr d1"
              using merge_definition_events dev by auto
            show ?thesis
              using vm Inr Some f dev op tu md
                Cons.IH[of "dict_set operations (KStr verb) operation" d1]
              by (auto simp: table_updates_append split: option.splits)
          qed
        qed
      qed
    qed
  qed
qed

lemma update_path_table: 
  "update_path paths rule operations =
     (if operations = [] then Inr paths else table_update paths (KStr rule) operations)"
  by (simp add: update_path_def table_update_def split: option.splits json.splits)

lemma for_rules_events:
  "for_rules env rule_parser process_doc kw eps paths definitions = Inr (paths', definitions') \<longleftrightarrow>
     (\<exists>pev dev. rules_events env rule_parser process_doc kw eps = Some (pev, dev) \<and>
        table_updates paths pev = Inr paths' \<and> table_updates definitions dev = Inr definitions')"
proof (induction eps arbitrary: paths definitions)
  case Nil
  then show ?case by auto
next
  case (Cons rm eps)
  obtain rule methods where rm: "rm = (rule, methods)" by (cases rm)
  show ?case
  proof (cases "methods_events env process_doc kw methods []")
    case None
    then have "\<And>r. for_methods env process_doc kw methods [] definitions \<noteq> Inr r"
      using for_methods_events by (metis option.distinct(1) surj_pair)
    then show ?thesis using rm None by (auto split: sum.splits)
  next
    case (Some od)
    obtain operations dev where od: "od = (operations, dev)" by (cases od)
    show ?thesis
    proof (cases "table_updates definitions dev")
      case (Inl err)
      then have "\<And>r. for_methods env process_doc kw methods [] definitions \<noteq> Inr r"
        using for_methods_events[of env process_doc kw methods "[]" definitions] Some od
        by (metis Pair_inject option.inject sum.distinct(1) surj_pair)
      then show ?thesis
        using rm Some od Inl
        by (auto simp: table_updates_append split: sum.splits option.splits)
    next
      case d1: (Inr d1)
      then have fm: "for_methods env process_doc kw methods [] definitions = Inr (operations, d1)"
        using for_methods_events Some od by auto
      show ?thesis
      proof (cases "update_path paths (rule_parser rule) operations")
        case (Inl err)
        then show ?thesis
          using rm Some od d1 fm
          by (auto simp: update_path_table table_updates_append split: if_splits option.splits)
      next
        case p1: (Inr p1)
        show ?thesis
          using rm Some od d1 fm p1 Cons.IH[of p1 d1]
          by (auto simp: update_path_table table_updates_append split: if_splits option.splits)
      qed
    qed
  qed
qed

section \<open>The assembler's tables\<close>

lemma show_int_200: "show_int 200 = ''200''"
  by (simp add: show_int_def show_nat.simps)

lemma example_method_fragment:
  "method_fragment docs_env sanitize None (Some example_doc) =
     Inr (Some (Some ''Create an item'', Some ''Stores it'',
                [(KStr ''parameters'', JList [item_entry]),
                 (KStr ''responses'', JObj [(KInt 200, JObj [(KStr ''description'', JStr ''ok'')])]),
                 (KStr ''tags'', JList [JStr ''items''])],
                [JObj item_schema], JList [item_entry_done],
                [(KStr ''200'', JObj [(KStr ''description'', JStr ''ok'')])]))"
  by (simp add: method_fragment_def parse_docstring_def resolve_doc_def split_doc_def
      example_doc_def docs_env_def example_fragment_def sanitize_def collect_definitions_def
      dict_get_default_def show_int_200
      extract_definitions_def extract_item.simps item_entry_def item_entry_done_def
      item_schema_def is_import_ref_def dict_get_def extract_array_defs_def put_items_def
      put_values_def replace_schema_def ref_string_def)

lemma method_fragment_undocumented: "method_fragment env process_doc kw None = Inr None"
  by (simp add: method_fragment_def parse_docstring_def)

lemma example_first_run:
  "swagger docs_env example_endpoints id sanitize None None = Inr example_out"
  by (simp add: swagger_def example_endpoints_def example_method_fragment
      method_fragment_undocumented
      merge_definition_def build_operation_def OPTIONAL_FIELDS_def opt_text_def
      update_path_def item_schema_def dict_get_def dict_del_def
      example_out_def example_operation_def example_definitions_def)

lemma map_of_rev_distinct: "distinct (map fst xs) \<Longrightarrow> map_of (rev xs) = map_of xs"
proof (induction xs)
  case Nil
  then show ?case by simp
next
  case (Cons kv xs)
  obtain k v where kv: "kv = (k, v)" by (cases kv)
  have k: "map_of xs k = None" using Cons.prems kv by (simp add: map_of_eq_None_iff)
  have "map_of (rev xs) = map_of xs" using Cons by simp
  then show ?case using kv k by (auto simp: fun_eq_iff map_add_def split: option.splits)
qed

lemma dict_update_empty: "distinct (map fst e) \<Longrightarrow> dict_update [] e = e"
  using dict_update_fresh[of e "[]"] by simp

text \<open>
  Claim C6. When \<open>swagger\<close> with no template returns a document for an application,
  \<open>swagger\<close> on the same application with that document as template returns the same
  document: its \<open>paths\<close> and \<open>definitions\<close> are those of the first run, and so is
  the rest of it. The application is given by the routes that the URL parser finds; the
  rule parser, the sanitization function and the file keyword are those of the first run.
\<close>

theorem regeneration_is_fixed_point:
  assumes "swagger env swagger_endpoints rule_parser process_doc kw None = Inr out"
  shows "swagger env swagger_endpoints rule_parser process_doc kw (Some out) = Inr out"
proof -
  let ?info = "JObj [(KStr ''version'', JStr ''0.0.0''), (KStr ''title'', JStr ''Cool product name'')]"
  from assms obtain paths definitions where
    run: "for_rules env rule_parser process_doc kw swagger_endpoints [] [] = Inr (paths, definitions)"
    and out: "out = [(KStr ''swagger'', JStr ''2.0''), (KStr ''info'', ?info),
                     (KStr ''paths'', JObj paths), (KStr ''definitions'', JObj definitions)]"
    by (auto simp: swagger_def split: sum.splits)
  from run obtain pev dev where
    ev: "rules_events env rule_parser process_doc kw swagger_endpoints = Some (pev, dev)"
    and p: "table_updates [] pev = Inr paths" and d: "table_updates [] dev = Inr definitions"
    using for_rules_events by blast
  have p2: "table_updates paths pev = Inr paths"
    by (rule table_updates_fixed_point[OF p]) (simp_all add: entry_of_def)
  have d2: "table_updates definitions dev = Inr definitions"
    by (rule table_updates_fixed_point[OF d]) (simp_all add: entry_of_def)
  have again: "for_rules env rule_parser process_doc kw swagger_endpoints paths definitions
                 = Inr (paths, definitions)"
    using for_rules_events ev p2 d2 by blast
  have dp: "distinct (map fst paths)" using table_updates_distinct[OF p] by simp
  have dd: "distinct (map fst definitions)" using table_updates_distinct[OF d] by simp
  have sp: "seed_section out ''paths'' = Inr paths"
    using dict_update_empty[OF dp] by (simp add: seed_section_def dict_get_default_def out)
  have sd: "seed_section out ''definitions'' = Inr definitions"
    using dict_update_empty[OF dd] by (simp add: seed_section_def dict_get_default_def out)
  have upd: "dict_update [(KStr ''swagger'', JStr ''2.0''), (KStr ''info'', ?info)] out = out"
    by (simp add: out)
  show ?thesis
    unfolding swagger_def Let_def upd
    using sp sd again by (simp add: out)
qed

theorem regeneration_is_fixed_point_witness:
  "swagger docs_env example_endpoints id sanitize None None = Inr example_out \<and>
   swagger docs_env example_endpoints id sanitize None (Some example_out) = Inr example_out \<and>
   dict_get example_out (KStr ''definitions'') = example_definitions"
  using regeneration_is_fixed_point[OF example_first_run] example_first_run
  by (simp add: example_out_def dict_get_def)

text \<open>
  Claim C5. Let \<open>swagger\<close> return a document for a template, a dictionary whose
  \<open>paths\<close> section is a dictionary too. For every route and verb, the operation of the
  document is the operation that discovery produces for that route and verb (the last
  one, when several handlers give one) and, when discovery produces none for that verb,
  the operation that the template holds for it, unchanged.
\<close>

theorem discovery_overwrites_template_per_verb:
  assumes "swagger env swagger_endpoints rule_parser process_doc kw (Some template) = Inr out"
    and "distinct (map fst template)"
    and "distinct (map fst (entry_of template (KStr ''paths'')))"
  shows "operation_at out route verb =
           (case discovered_operation env swagger_endpoints rule_parser process_doc kw route verb of
              Some operation \<Rightarrow> Some operation
            | None \<Rightarrow> operation_at template route verb)"
proof -
  let ?output0 = "[(KStr ''swagger'', JStr ''2.0''),
                   (KStr ''info'', JObj [(KStr ''version'', JStr ''0.0.0''),
                                         (KStr ''title'', JStr ''Cool product name'')])]"
  let ?output = "dict_update ?output0 template"
  from assms(1) obtain paths0 defs0 paths' defs' where
    sp: "seed_section ?output ''paths'' = Inr paths0"
    and run: "for_rules env rule_parser process_doc kw swagger_endpoints paths0 defs0 = Inr (paths', defs')"
    and out: "out = dict_set (dict_set ?output (KStr ''paths'') (JObj paths'))
                      (KStr ''definitions'') (JObj defs')"
    by (auto simp: swagger_def Let_def split: sum.splits)
  have lookup: "map_of ?output (KStr ''paths'') = map_of template (KStr ''paths'')"
    using map_of_rev_distinct[OF assms(2)]
    by (simp add: map_of_dict_update split: option.splits)
  have p0: "paths0 = entry_of template (KStr ''paths'')"
  proof -
    from sp obtain pk where
      pk: "dict_get_default ?output (KStr ''paths'') (JObj []) = JObj pk" "paths0 = dict_update [] pk"
      by (auto simp: seed_section_def split: json.splits)
    have "pk = entry_of template (KStr ''paths'')"
      using pk(1) lookup by (auto simp: dict_get_default_def entry_of_def split: option.splits)
    then show ?thesis using pk(2) dict_update_empty[OF assms(3)] by simp
  qed
  have outp: "entry_of out (KStr ''paths'') = paths'"
    by (simp add: out entry_of_def map_of_dict_set)
  from run obtain pev dev where
    ev: "rules_events env rule_parser process_doc kw swagger_endpoints = Some (pev, dev)"
    and p: "table_updates paths0 pev = Inr paths'"
    using for_rules_events by blast
  have entry: "entry_of paths' (KStr route) =
                 dict_update (entry_of paths0 (KStr route)) (updates_for (KStr route) pev)"
  proof (cases "KStr route \<in> fst ` set pev")
    case True
    then show ?thesis using table_updates_sem[OF p, of "KStr route"] by (simp add: entry_of_def)
  next
    case False
    then show ?thesis
      using table_updates_sem[OF p, of "KStr route"]
      by (simp add: entry_of_def updates_for_absent)
  qed
  show ?thesis
    unfolding operation_at_def discovered_operation_def outp entry ev
    by (simp add: map_of_dict_update p0)
qed

lemma example_template_run:
  "swagger docs_env example_endpoints id sanitize None (Some example_template) = Inr example_merged"
  by (simp add: swagger_def example_endpoints_def example_method_fragment
      method_fragment_undocumented example_template_def seed_section_def dict_get_default_def
      merge_definition_def build_operation_def OPTIONAL_FIELDS_def opt_text_def
      update_path_def item_schema_def dict_get_def dict_del_def
      example_merged_def example_operation_def example_definitions_def)

lemma example_rules_events:
  "rules_events docs_env id sanitize None example_endpoints =
     Some ([(KStr ''/items'', [(KStr ''post'', example_operation)])],
           [(KStr ''Item'',
             [(KStr ''properties'', JObj [(KStr ''name'', JObj [(KStr ''type'', JStr ''string'')])])])])"
  by (simp add: example_endpoints_def example_method_fragment method_fragment_undocumented
      build_operation_def OPTIONAL_FIELDS_def opt_text_def item_schema_def dict_get_def
      dict_del_def example_operation_def)

theorem discovery_overwrites_template_per_verb_witness:
  "operation_at example_template ''/items'' ''post'' = Some (JObj [(KStr ''summary'', JStr ''old'')]) \<and>
   operation_at example_merged ''/items'' ''post'' = Some example_operation \<and>
   operation_at example_merged ''/items'' ''delete'' = Some (JObj [(KStr ''summary'', JStr ''Remove'')])"
proof -
  have d1: "distinct (map fst example_template)" by (simp add: example_template_def)
  have d2: "distinct (map fst (entry_of example_template (KStr ''paths'')))"
    by (simp add: example_template_def entry_of_def)
  note inst = discovery_overwrites_template_per_verb[OF example_template_run d1 d2]
  have t1: "operation_at example_template ''/items'' ''post'' = Some (JObj [(KStr ''summary'', JStr ''old'')])"
    and t2: "operation_at example_template ''/items'' ''delete'' = Some (JObj [(KStr ''summary'', JStr ''Remove'')])"
    by (simp_all add: operation_at_def example_template_def entry_of_def)
  have "operation_at example_merged ''/items'' ''post'' = Some example_operation"
    using inst[of "''/items''" "''post''"]
    by (simp add: discovered_operation_def example_rules_events updates_for_def)
  moreover have "operation_at example_merged ''/items'' ''delete'' = Some (JObj [(KStr ''summary'', JStr ''Remove'')])"
    using inst[of "''/items''" "''delete''"] t2
    by (simp add: discovered_operation_def example_rules_events updates_for_def)
  ultimately show ?thesis using t1 by simp
qed

section \<open>A second run of the extractor\<close>
























lemma extract_item_entry_again:
  "extract_definitions example_env [item_entry_done] 0 = Inr ([item_entry_done], [])"
  by (simp add: extract_definitions_def extract_item.simps item_entry_done_def
      is_import_ref_def dict_get_def extract_array_defs_def put_items_def put_values_def)



section \<open>Objects with the same identifier\<close>

text \<open>
  Claim C9, as amended. Let two hoisted objects carry the same identifier \<open>X\<close>, and let
  the definitions table hold for \<open>X\<close> nothing, or a dictionary (from a template or from
  an earlier merge). Merging the two, in order, succeeds, and the table's entry for
  \<open>X\<close> is their merge key by key: a key holds the value of the later object when that
  object has the key, else the value of the earlier object when that one has it, else the
  value the table held; the \<open>id\<close> of the objects is not stored. So a key that only
  the earlier object (or the table) has survives.
\<close>

theorem same_identifier_merges_key_by_key:
  assumes "dict_get d1 (KStr ''id'') = X" and "dict_get d2 (KStr ''id'') = X"
    and "X \<noteq> JNull" and "hash_key X = Inr k"
    and "map_of table k = None \<or> (\<exists>cur. map_of table k = Some (JObj cur))"
    and "distinct (map fst d1)" and "distinct (map fst d2)"
  shows "\<exists>table' merged.
           merge_definitions table [JObj d1, JObj d2] = Inr table' \<and>
           map_of table' k = Some (JObj merged) \<and>
           (\<forall>key. map_of merged key =
              (case map_of (dict_del d2 (KStr ''id'')) key of
                 Some v \<Rightarrow> Some v
               | None \<Rightarrow>
                   (case map_of (dict_del d1 (KStr ''id'')) key of
                      Some v \<Rightarrow> Some v
                    | None \<Rightarrow> map_of (entry_of table k) key)))"
proof -
  let ?e1 = "dict_del d1 (KStr ''id'')" and ?e2 = "dict_del d2 (KStr ''id'')"
  let ?evs = "[(k, ?e1), (k, ?e2)]"
  have ev: "definition_events [JObj d1, JObj d2] = Some ?evs"
    using assms(1,2,3,4) by simp
  have "\<forall>k'\<in>fst ` set ?evs. map_of table k' = None \<or> (\<exists>c. map_of table k' = Some (JObj c))"
    using assms(5) by simp
  then obtain table' where run: "table_updates table ?evs = Inr table'"
    using table_updates_succeeds by blast
  have m: "merge_definitions table [JObj d1, JObj d2] = Inr table'"
    using merge_definition_events ev run by blast
  have entry: "map_of table' k = Some (JObj (dict_update (entry_of table k) (?e1 @ ?e2)))"
    using table_updates_sem[OF run, of k] by (simp add: updates_for_def)
  have r1: "map_of (rev ?e1) = map_of ?e1"
    by (rule map_of_rev_distinct[OF distinct_dict_del[OF assms(6)]])
  have r2: "map_of (rev ?e2) = map_of ?e2"
    by (rule map_of_rev_distinct[OF distinct_dict_del[OF assms(7)]])
  have "map_of (dict_update (entry_of table k) (?e1 @ ?e2)) key =
              (case map_of ?e2 key of
                 Some v \<Rightarrow> Some v
               | None \<Rightarrow> (case map_of ?e1 key of Some v \<Rightarrow> Some v
                           | None \<Rightarrow> map_of (entry_of table k) key))" for key
    by (simp add: map_of_dict_update r1 r2 map_add_def split: option.splits)
  then show ?thesis using m entry by blast
qed

lemma merge_pets:
  "merge_definitions [] [JObj pet_required, JObj pet_typed] =
     Inr [(KStr ''Pet'', JObj [(KStr ''required'', JList [JStr ''name'']), (KStr ''type'', JStr ''object'')])]"
  by (simp add: merge_definition_def pet_required_def pet_typed_def dict_get_def dict_del_def)

theorem same_identifier_merges_key_by_key_witness:
  "merge_definitions [] [JObj pet_required, JObj pet_typed] =
     Inr [(KStr ''Pet'', JObj [(KStr ''required'', JList [JStr ''name'']), (KStr ''type'', JStr ''object'')])] \<and>
   map_of [(KStr ''required'', JList [JStr ''name'']), (KStr ''type'', JStr ''object'')] (KStr ''required'')
     = map_of (dict_del pet_required (KStr ''id'')) (KStr ''required'')"
proof -
  have a: "dict_get pet_required (KStr ''id'') = JStr ''Pet''"
    and b: "dict_get pet_typed (KStr ''id'') = JStr ''Pet''"
    by (simp_all add: pet_required_def pet_typed_def dict_get_def)
  have c: "JStr ''Pet'' \<noteq> JNull" by simp
  have d: "hash_key (JStr ''Pet'') = Inr (KStr ''Pet'')" by simp
  have e: "map_of [] (KStr ''Pet'') = None \<or> (\<exists>cur. map_of [] (KStr ''Pet'') = Some (JObj cur))" by simp
  have f: "distinct (map fst pet_required)" and g: "distinct (map fst pet_typed)"
    by (simp_all add: pet_required_def pet_typed_def)
  from same_identifier_merges_key_by_key[OF a b c d e f g]
  obtain table' merged where
    w: "merge_definitions [] [JObj pet_required, JObj pet_typed] = Inr table'"
       "map_of table' (KStr ''Pet'') = Some (JObj merged)"
       "map_of merged (KStr ''required'') =
          (case map_of (dict_del pet_typed (KStr ''id'')) (KStr ''required'') of
             Some v \<Rightarrow> Some v
           | None \<Rightarrow>
               (case map_of (dict_del pet_required (KStr ''id'')) (KStr ''required'') of
                  Some v \<Rightarrow> Some v
                | None \<Rightarrow> map_of (entry_of [] (KStr ''Pet'')) (KStr ''required'')))"
    by blast
  have "merged = [(KStr ''required'', JList [JStr ''name'']), (KStr ''type'', JStr ''object'')]"
    using w(1,2) merge_pets by simp
  then show ?thesis
    using w(3) merge_pets by (simp add: pet_required_def pet_typed_def dict_del_def entry_of_def)
qed

theorem same_identifier_merges_key_by_key_counterexample:
  "extract_definitions example_env
     [JObj [(KStr ''schema'', JObj pet_required)], JObj [(KStr ''schema'', JObj pet_typed)]] 0 =
     Inr ([JObj [(KStr ''schema'', JObj [(KStr ''$ref'', JStr ''#/definitions/Pet'')])],
           JObj [(KStr ''schema'', JObj [(KStr ''$ref'', JStr ''#/definitions/Pet'')])]],
          [JObj pet_required, JObj pet_typed]) \<and>
   merge_definitions [] [JObj pet_required, JObj pet_typed] =
     Inr [(KStr ''Pet'', JObj [(KStr ''required'', JList [JStr ''name'']), (KStr ''type'', JStr ''object'')])] \<and>
   JObj [(KStr ''required'', JList [JStr ''name'']), (KStr ''type'', JStr ''object'')]
     \<noteq> JObj (dict_del pet_typed (KStr ''id''))"
  by (simp add: extract_definitions_def extract_item.simps
      is_import_ref_def dict_get_def extract_array_defs_def put_items_def
      put_values_def replace_schema_def ref_string_def dict_del_def
      merge_definition_def pet_required_def pet_typed_def)

end
